theory Spec2Isabelle
  imports Main "HOL-Library.Word"
begin

section \<open>JavaScript strings\<close>

text \<open>
  A JavaScript string is a finite sequence of UTF-16 code units; \<open>length\<close>, \<open>slice\<close>,
  \<open>trim\<close> and the regular expressions of \<^verbatim>\<open>src/app/api/events/route.ts\<close> all work on
  code units. \<open>js\<close> embeds an ASCII literal of the source.
\<close>

type_synonym jschar = "16 word"
type_synonym jsstring = "jschar list"

definition js :: "string \<Rightarrow> jsstring" where
  "js s = map (\<lambda>c. of_nat (of_char c)) s"

text \<open>
  ECMAScript \<open>WhiteSpace\<close> and \<open>LineTerminator\<close>: TAB, LF, VT, FF, CR, SP, NBSP, the
  Unicode space separators, LS, PS and the byte order mark. \<open>String.prototype.trim\<close>,
  the \<^verbatim>\<open>\s\<close> of a regular expression and the leading blanks skipped by \<open>parseInt\<close>
  all use this set.
\<close>

definition isWhiteSpace :: "jschar \<Rightarrow> bool" where
  "isWhiteSpace c \<longleftrightarrow>
     c = 0x9 \<or> c = 0xA \<or> c = 0xB \<or> c = 0xC \<or> c = 0xD \<or> c = 0x20 \<or> c = 0xA0 \<or>
     c = 0x1680 \<or> (0x2000 \<le> c \<and> c \<le> 0x200A) \<or> c = 0x2028 \<or> c = 0x2029 \<or>
     c = 0x202F \<or> c = 0x205F \<or> c = 0x3000 \<or> c = 0xFEFF"

definition trimStart :: "jsstring \<Rightarrow> jsstring" where
  "trimStart s = dropWhile isWhiteSpace s"

definition trim :: "jsstring \<Rightarrow> jsstring" where
  "trim s = rev (dropWhile isWhiteSpace (rev (dropWhile isWhiteSpace s)))"

text \<open>The character class \<^verbatim>\<open>[<>]\<close> and \<^verbatim>\<open>replace(/[<>]/g, "")\<close>.\<close>

definition isAngle :: "jschar \<Rightarrow> bool" where
  "isAngle c \<longleftrightarrow> c = 0x3C \<or> c = 0x3E"

definition stripAngles :: "jsstring \<Rightarrow> jsstring" where
  "stripAngles s = filter (\<lambda>c. \<not> isAngle c) s"

text \<open>The class \<^verbatim>\<open>\d\<close> (without the unicode flag: the ten ASCII digits) and decimal numerals.\<close>

definition isDigit :: "jschar \<Rightarrow> bool" where
  "isDigit c \<longleftrightarrow> 0x30 \<le> c \<and> c \<le> 0x39"

definition digitVal :: "jschar \<Rightarrow> nat" where
  "digitVal c = unat c - 48"

definition decimalValue :: "jsstring \<Rightarrow> nat" where
  "decimalValue ds = foldl (\<lambda>n c. 10 * n + digitVal c) 0 ds"

definition digitChar :: "nat \<Rightarrow> jschar" where
  "digitChar d = of_nat (48 + d)"

text \<open>\<open>Number.prototype.toString\<close> on a non-negative integer.\<close>

fun toString :: "nat \<Rightarrow> jsstring" where
  "toString n = (if n < 10 then [digitChar n] else toString (n div 10) @ [digitChar (n mod 10)])"

declare toString.simps [simp del]

text \<open>\<^verbatim>\<open>s.padStart(n, "0")\<close> with a one-character filler.\<close>

definition padStart :: "nat \<Rightarrow> jschar \<Rightarrow> jsstring \<Rightarrow> jsstring" where
  "padStart n c s = replicate (n - length s) c @ s"

text \<open>
  \<^verbatim>\<open>parseInt(s, 10)\<close>: leading white space is skipped, one sign is read, then the longest
  prefix of decimal digits; without a digit the result is \<open>NaN\<close> (here \<open>None\<close>). The
  value is the mathematical integer read from the digits. The Number that the call
  returns is that integer rounded to a double (\<open>parseIntNumber\<close> below); the two are the
  same number below \<open>2 ^ 53\<close>, so on the groups of one or two digits of a time of
  day nothing is rounded.
\<close>

definition parseInt :: "jsstring \<Rightarrow> int option" where
  "parseInt s =
     (let S = trimStart s;
          sign = (if S \<noteq> [] \<and> hd S = 0x2D then - 1 else 1);
          S' = (if S \<noteq> [] \<and> (hd S = 0x2B \<or> hd S = 0x2D) then tl S else S);
          Z = takeWhile isDigit S'
      in if Z = [] then None else Some (sign * int (decimalValue Z)))"

section \<open>Text fields\<close>

text \<open>
  \<^verbatim>\<open>
  function sanitizePlainText(value: string, maxLength: number) {
    const trimmed = value.trim();
    if (!trimmed) { return ""; }
    return trimmed.replace(/[<>]/g, "").slice(0, maxLength);
  }
  \<close>
\<close>

definition sanitizePlainText :: "jsstring \<Rightarrow> nat \<Rightarrow> jsstring" where
  "sanitizePlainText v maxLength =
     (let trimmed = trim v
      in if trimmed = [] then [] else take maxLength (stripAngles trimmed))"

section \<open>Time of day\<close>

text \<open>
  The regular expression \<^verbatim>\<open>/^(\d{1,2}):(\d{2})(?:\s*(AM|PM))?$/i\<close>. The match returns
  the three groups. The optional suffix is white space followed by one of the two words
  in either case; with flag \<open>i\<close> and no flag \<open>u\<close> only the ASCII letters match.
\<close>

definition isA :: "jschar \<Rightarrow> bool" where "isA c \<longleftrightarrow> c = 0x41 \<or> c = 0x61"
definition isP :: "jschar \<Rightarrow> bool" where "isP c \<longleftrightarrow> c = 0x50 \<or> c = 0x70"
definition isM :: "jschar \<Rightarrow> bool" where "isM c \<longleftrightarrow> c = 0x4D \<or> c = 0x6D"

definition matchSuffix :: "jsstring \<Rightarrow> jsstring option option" where
  "matchSuffix r =
     (if r = [] then Some None
      else (case dropWhile isWhiteSpace r of
              [a, m] \<Rightarrow> if (isA a \<or> isP a) \<and> isM m then Some (Some [a, m]) else None
            | _ \<Rightarrow> None))"

fun timeRegex :: "jsstring \<Rightarrow> (jsstring \<times> jsstring \<times> jsstring option) option" where
  "timeRegex (h1 # h2 # c # m1 # m2 # r) =
     (if isDigit h1 \<and> isDigit h2 \<and> c = 0x3A \<and> isDigit m1 \<and> isDigit m2
      then map_option (\<lambda>p. ([h1, h2], [m1, m2], p)) (matchSuffix r)
      else if isDigit h1 \<and> h2 = 0x3A \<and> isDigit c \<and> isDigit m1
      then map_option (\<lambda>p. ([h1], [c, m1], p)) (matchSuffix (m2 # r))
      else None)"
| "timeRegex [h1, c, m1, m2] =
     (if isDigit h1 \<and> c = 0x3A \<and> isDigit m1 \<and> isDigit m2
      then Some ([h1], [m1, m2], None) else None)"
| "timeRegex _ = None"

text \<open>\<open>toUpperCase\<close>, as far as the matched group needs it: ASCII letters.\<close>

definition toUpperCase :: "jsstring \<Rightarrow> jsstring" where
  "toUpperCase s = map (\<lambda>c. if 0x61 \<le> c \<and> c \<le> 0x7A then c - 0x20 else c) s"

text \<open>
  \<^verbatim>\<open>
  function normalizeTime(value: string) {
    const match = value.trim().match(timeRegex);
    if (!match) { return null; }
    let hours = parseInt(match[1], 10);
    const minutes = parseInt(match[2], 10);
    const period = match[3]?.toUpperCase();
    if (period) {
      if (period === "PM" && hours !== 12) hours += 12;
      if (period === "AM" && hours === 12) hours = 0;
    }
    if (hours > 23 || minutes > 59) { return null; }
    return `${hours.toString().padStart(2, "0")}:${minutes.toString().padStart(2, "0")}`;
  }
  \<close>
  \<open>parseInt\<close> of a group of digits is never \<open>NaN\<close>; the model keeps that case as a
  rejection, which is what the comparison \<open>NaN > 23\<close> being false and the template
  would not give, but the case cannot arise (lemma \<open>parseInt_digits\<close>).
\<close>

definition normalizeTime :: "jsstring \<Rightarrow> jsstring option" where
  "normalizeTime v =
     (case timeRegex (trim v) of
        None \<Rightarrow> None
      | Some (g1, g2, g3) \<Rightarrow>
          (case (parseInt g1, parseInt g2) of
             (Some hours0, Some minutes) \<Rightarrow>
               (let period = map_option toUpperCase g3;
                    hours1 = (if period = Some (js ''PM'') \<and> hours0 \<noteq> 12 then hours0 + 12 else hours0);
                    hours = (if period = Some (js ''AM'') \<and> hours1 = 12 then 0 else hours1)
                in if hours > 23 \<or> minutes > 59 then None
                   else Some (padStart 2 0x30 (toString (nat hours)) @ js '':'' @
                              padStart 2 0x30 (toString (nat minutes))))
           | _ \<Rightarrow> None))"

section \<open>Numbers\<close>

text \<open>
  The Number values that the arithmetic of the event list can reach: \<open>NaN\<close>, the two
  infinities and the doubles that are integers, \<open>Num n\<close> standing for the double whose
  value is \<open>n\<close>. The two zeros are one value here: no operation of the handler tells
  them apart (\<^verbatim>\<open>Math.max(0, -0)\<close> is \<open>+0\<close>, and the limit is at least 1).
\<close>

datatype number = NaN | Num int | Infinity | NegInfinity

text \<open>
  The gap between neighbouring doubles at magnitude \<open>m\<close>: 1 below \<open>2 ^ 53\<close> (53 binary
  digits of precision), twice as much for every further binary digit.
\<close>

function ulp :: "int \<Rightarrow> int" where
  "ulp m = (if m < 2 ^ 53 then 1 else 2 * ulp (m div 2))"
  by pat_completeness auto

termination
  by (relation "measure nat") auto

declare ulp.simps [simp del]

text \<open>
  The Number for a mathematical integer: the nearest double, the one with the even
  significand when two are equally near, and an infinity from \<open>2 ^ 1024\<close> on (the
  largest double is \<open>2 ^ 1024 - 2 ^ 971\<close>).
\<close>

definition roundToDouble :: "int \<Rightarrow> number" where
  "roundToDouble x =
     (let m = \<bar>x\<bar>;
          u = ulp m;
          q = m div u;
          r = m mod u;
          k = (if 2 * r < u \<or> (2 * r = u \<and> even q) then q else q + 1) * u
      in if 2 ^ 1024 \<le> k then (if x < 0 then NegInfinity else Infinity)
         else Num (if x < 0 then - k else k))"

text \<open>
  The Number returned by \<^verbatim>\<open>parseInt(s, 10)\<close>. (For numerals of more than 20
  significant digits the standard lets an engine round an approximation of the
  integer; V8, the engine of Node.js, rounds the integer itself.)
\<close>

definition parseIntNumber :: "jsstring \<Rightarrow> number" where
  "parseIntNumber s = (case parseInt s of None \<Rightarrow> NaN | Some mathInt \<Rightarrow> roundToDouble mathInt)"

text \<open>\<open>Math.max\<close> and \<open>Math.min\<close> of two Numbers, and the product \<^verbatim>\<open>x * y\<close>.\<close>

fun Math_max :: "number \<Rightarrow> number \<Rightarrow> number" where
  "Math_max NaN y = NaN"
| "Math_max x NaN = NaN"
| "Math_max Infinity y = Infinity"
| "Math_max x Infinity = Infinity"
| "Math_max NegInfinity y = y"
| "Math_max x NegInfinity = x"
| "Math_max (Num a) (Num b) = Num (max a b)"

fun Math_min :: "number \<Rightarrow> number \<Rightarrow> number" where
  "Math_min NaN y = NaN"
| "Math_min x NaN = NaN"
| "Math_min NegInfinity y = NegInfinity"
| "Math_min x NegInfinity = NegInfinity"
| "Math_min Infinity y = y"
| "Math_min x Infinity = x"
| "Math_min (Num a) (Num b) = Num (min a b)"

definition signOf :: "number \<Rightarrow> int" where
  "signOf x = (case x of NaN \<Rightarrow> 0 | Num a \<Rightarrow> sgn a | Infinity \<Rightarrow> 1 | NegInfinity \<Rightarrow> - 1)"

definition multiply :: "number \<Rightarrow> number \<Rightarrow> number" where
  "multiply x y =
     (case (x, y) of
        (Num a, Num b) \<Rightarrow> roundToDouble (a * b)
      | _ \<Rightarrow> if x = NaN \<or> y = NaN \<or> signOf x * signOf y = 0 then NaN
             else if 0 < signOf x * signOf y then Infinity else NegInfinity)"

section \<open>Pagination of the event list\<close>

text \<open>
  \<^verbatim>\<open>
  let limit = 20;
  if (limitParam !== null) {
    const parsedLimit = parseInt(limitParam, 10);
    if (!isNaN(parsedLimit)) { limit = Math.max(1, Math.min(100, parsedLimit)); }
  }
  let page = 0;
  if (pageParam !== null) {
    const parsedPage = parseInt(pageParam, 10);
    if (!isNaN(parsedPage)) { page = Math.max(0, parsedPage); }
  }
  const events = await Event.find().sort({createdAt: -1}).limit(limit).skip(page * limit);
  \<close>
  \<open>searchParams.get\<close> gives \<open>null\<close> (here \<open>None\<close>) for an absent parameter. \<open>GET\<close> is
  the pair of Numbers handed to \<open>limit\<close> and \<open>skip\<close>.
\<close>

definition GET_limit :: "jsstring option \<Rightarrow> number" where
  "GET_limit limitParam =
     (case limitParam of
        None \<Rightarrow> Num 20
      | Some s \<Rightarrow>
          (let parsedLimit = parseIntNumber s
           in if parsedLimit = NaN then Num 20 else Math_max (Num 1) (Math_min (Num 100) parsedLimit)))"

definition GET_page :: "jsstring option \<Rightarrow> number" where
  "GET_page pageParam =
     (case pageParam of
        None \<Rightarrow> Num 0
      | Some s \<Rightarrow>
          (let parsedPage = parseIntNumber s
           in if parsedPage = NaN then Num 0 else Math_max (Num 0) parsedPage))"

record find_query =
  query_limit :: number
  query_skip :: number

definition GET :: "jsstring option \<Rightarrow> jsstring option \<Rightarrow> find_query" where
  "GET limitParam pageParam =
     (let limit = GET_limit limitParam; page = GET_page pageParam
      in \<lparr>query_limit = limit, query_skip = multiply page limit\<rparr>)"

subsection \<open>The time format in the specification's words\<close>

text \<open>
  The specification reads a time as \<open>H:MM\<close> or \<open>HH:MM\<close> with an optional \<open>AM\<close>/\<open>PM\<close>
  suffix, converts the hour to the 24-hour clock and prints both numbers with two digits.
\<close>

datatype period = AM | PM

definition to24h :: "period option \<Rightarrow> nat \<Rightarrow> nat" where
  "to24h p h = (case p of None \<Rightarrow> h
                | Some PM \<Rightarrow> (if h = 12 then h else h + 12)
                | Some AM \<Rightarrow> (if h = 12 then 0 else h))"

definition periodWord :: "period \<Rightarrow> jschar \<Rightarrow> jschar \<Rightarrow> bool" where
  "periodWord p a m \<longleftrightarrow> (case p of AM \<Rightarrow> isA a | PM \<Rightarrow> isP a) \<and> isM m"

definition periodSuffix :: "jsstring \<Rightarrow> period option \<Rightarrow> bool" where
  "periodSuffix sfx p \<longleftrightarrow>
     (case p of None \<Rightarrow> sfx = []
      | Some q \<Rightarrow> (\<exists>ws a m. sfx = ws @ [a, m] \<and> (\<forall>w\<in>set ws. isWhiteSpace w) \<and> periodWord q a m))"

definition twoDigits :: "nat \<Rightarrow> jsstring" where
  "twoDigits n = [digitChar (n div 10), digitChar (n mod 10)]"

definition periodGroup :: "jsstring option \<Rightarrow> period option \<Rightarrow> bool" where
  "periodGroup g p \<longleftrightarrow>
     (case p of None \<Rightarrow> g = None | Some q \<Rightarrow> (\<exists>a m. g = Some [a, m] \<and> periodWord q a m))"

section \<open>JSON values and \<open>JSON.parse\<close>\<close>

text \<open>
  The values \<open>JSON.parse\<close> can return. A number keeps the numeral as written: the code
  only ever asks whether an element is a string. An object keeps its members in the
  order of the text.
\<close>

datatype json =
    JNull
  | JBool bool
  | JNum jsstring
  | JStr jsstring
  | JArr "json list"
  | JObj "(jsstring \<times> json) list"

datatype token =
    TLBracket | TRBracket | TLBrace | TRBrace | TComma | TColon
  | TString jsstring | TNumber jsstring | TTrue | TFalse | TNull

text \<open>JSON white space is TAB, LF, CR and SP only.\<close>

definition isJSONWhiteSpace :: "jschar \<Rightarrow> bool" where
  "isJSONWhiteSpace c \<longleftrightarrow> c = 0x9 \<or> c = 0xA \<or> c = 0xD \<or> c = 0x20"

definition hexVal :: "jschar \<Rightarrow> nat option" where
  "hexVal c =
     (if 0x30 \<le> c \<and> c \<le> 0x39 then Some (unat c - 48)
      else if 0x41 \<le> c \<and> c \<le> 0x46 then Some (unat c - 55)
      else if 0x61 \<le> c \<and> c \<le> 0x66 then Some (unat c - 87)
      else None)"

definition unicodeEscape :: "jschar \<Rightarrow> jschar \<Rightarrow> jschar \<Rightarrow> jschar \<Rightarrow> jschar option" where
  "unicodeEscape a b c d =
     (case (hexVal a, hexVal b, hexVal c, hexVal d) of
        (Some w, Some x, Some y, Some z) \<Rightarrow> Some (of_nat (((w * 16 + x) * 16 + y) * 16 + z))
      | _ \<Rightarrow> None)"

definition simpleEscape :: "jschar \<Rightarrow> jschar option" where
  "simpleEscape e =
     (if e = 0x22 \<or> e = 0x5C \<or> e = 0x2F then Some e
      else if e = 0x62 then Some 0x8
      else if e = 0x66 then Some 0xC
      else if e = 0x6E then Some 0xA
      else if e = 0x72 then Some 0xD
      else if e = 0x74 then Some 0x9
      else None)"

text \<open>
  The characters of a string after its opening quote, up to the closing quote: the value
  and the rest of the text. Control characters below U+0020 must be escaped.
\<close>

fun lexString :: "jsstring \<Rightarrow> (jsstring \<times> jsstring) option" where
  "lexString [] = None"
| "lexString (c # r) =
     (if c = 0x22 then Some ([], r)
      else if c = 0x5C then
        (case r of
           [] \<Rightarrow> None
         | e # r' \<Rightarrow>
             if e = 0x75 then
               (case r' of
                  a # b # c' # d # r'' \<Rightarrow>
                    (case unicodeEscape a b c' d of
                       None \<Rightarrow> None
                     | Some u \<Rightarrow> map_option (\<lambda>(s, t). (u # s, t)) (lexString r''))
                | _ \<Rightarrow> None)
             else
               (case simpleEscape e of
                  None \<Rightarrow> None
                | Some u \<Rightarrow> map_option (\<lambda>(s, t). (u # s, t)) (lexString r')))
      else if c < 0x20 then None
      else map_option (\<lambda>(s, t). (c # s, t)) (lexString r))"

text \<open>
  A number: \<^verbatim>\<open>-?(0|[1-9][0-9]*)(\.[0-9]+)?([eE][+-]?[0-9]+)?\<close>. The result is the numeral
  and the rest of the text. A zero followed by a digit is refused at once (the grammar
  would end the number after the zero and then find no separator).
\<close>

definition lexNumber :: "jsstring \<Rightarrow> (jsstring \<times> jsstring) option" where
  "lexNumber s =
     (let sgn = takeWhile (\<lambda>c. c = 0x2D) (take 1 s);
          s1 = drop (length sgn) s;
          ip = takeWhile isDigit s1;
          s2 = dropWhile isDigit s1
      in if ip = [] \<or> (hd ip = 0x30 \<and> length ip > 1) then None
         else
           (let hasFrac = (s2 \<noteq> [] \<and> hd s2 = 0x2E);
                fd = (if hasFrac then takeWhile isDigit (tl s2) else []);
                fp = (if hasFrac then 0x2E # fd else []);
                s3 = (if hasFrac then dropWhile isDigit (tl s2) else s2)
            in if hasFrac \<and> fd = [] then None
               else
                 (let hasExp = (s3 \<noteq> [] \<and> (hd s3 = 0x65 \<or> hd s3 = 0x45));
                      s4 = (if hasExp then tl s3 else s3);
                      es = (if hasExp then takeWhile (\<lambda>c. c = 0x2B \<or> c = 0x2D) (take 1 s4) else []);
                      s5 = drop (length es) s4;
                      ed = (if hasExp then takeWhile isDigit s5 else []);
                      ep = (if hasExp then hd s3 # es @ ed else []);
                      s6 = (if hasExp then dropWhile isDigit s5 else s3)
                  in if hasExp \<and> ed = [] then None
                     else Some (sgn @ ip @ fp @ ep, s6))))"

function lex :: "jsstring \<Rightarrow> token list option" where
  "lex [] = Some []"
| "lex (c # r) =
     (if isJSONWhiteSpace c then lex r
      else if c = 0x5B then map_option (Cons TLBracket) (lex r)
      else if c = 0x5D then map_option (Cons TRBracket) (lex r)
      else if c = 0x7B then map_option (Cons TLBrace) (lex r)
      else if c = 0x7D then map_option (Cons TRBrace) (lex r)
      else if c = 0x2C then map_option (Cons TComma) (lex r)
      else if c = 0x3A then map_option (Cons TColon) (lex r)
      else if c = 0x22 then
        (case lexString r of
           None \<Rightarrow> None
         | Some (s, r') \<Rightarrow> map_option (Cons (TString s)) (lex r'))
      else if c = 0x2D \<or> isDigit c then
        (case lexNumber (c # r) of
           None \<Rightarrow> None
         | Some (n, r') \<Rightarrow>
             if length r' \<le> length r then map_option (Cons (TNumber n)) (lex r') else None)
      else if take 4 (c # r) = js ''true'' then map_option (Cons TTrue) (lex (drop 3 r))
      else if take 5 (c # r) = js ''false'' then map_option (Cons TFalse) (lex (drop 4 r))
      else if take 4 (c # r) = js ''null'' then map_option (Cons TNull) (lex (drop 3 r))
      else None)"
  by pat_completeness auto
termination
proof (relation "measure length")
  have ls: "length t \<le> length s" if "lexString s = Some (v, t)" for s v t
    using that
  proof (induction s arbitrary: v t rule: lexString.induct)
    case 1
    then show ?case by simp
  next
    case (2 c r)
    then show ?case
      by (fastforce split: if_splits list.splits option.splits)
  qed
  fix c r x2 x y
  assume "lexString r = Some x2" "(x, y) = x2"
  then show "(y, c # r) \<in> measure length"
    using ls[of r x y] by simp
qed simp_all

text \<open>
  The grammar over tokens, as a stack machine: a frame per open array or object, and
  a mode saying what may come next.
\<close>

datatype frame =
    FArr "json list"
  | FObj "(jsstring \<times> json) list"
  | FKey "(jsstring \<times> json) list" jsstring

datatype mode =
    Value | ValueOrClose | KeyOrClose | Key | Colon | AfterElem | AfterMember | Done json

fun complete :: "json \<Rightarrow> frame list \<Rightarrow> (frame list \<times> mode) option" where
  "complete v [] = Some ([], Done v)"
| "complete v (FArr els # st) = Some (FArr (v # els) # st, AfterElem)"
| "complete v (FKey mems k # st) = Some (FObj ((k, v) # mems) # st, AfterMember)"
| "complete v (FObj mems # st) = None"

fun scalar :: "token \<Rightarrow> json option" where
  "scalar (TString s) = Some (JStr s)"
| "scalar (TNumber n) = Some (JNum n)"
| "scalar TTrue = Some (JBool True)"
| "scalar TFalse = Some (JBool False)"
| "scalar TNull = Some JNull"
| "scalar _ = None"

fun step :: "frame list \<Rightarrow> mode \<Rightarrow> token \<Rightarrow> (frame list \<times> mode) option" where
  "step st Value t =
     (case t of
        TLBracket \<Rightarrow> Some (FArr [] # st, ValueOrClose)
      | TLBrace \<Rightarrow> Some (FObj [] # st, KeyOrClose)
      | _ \<Rightarrow> (case scalar t of Some v \<Rightarrow> complete v st | None \<Rightarrow> None))"
| "step st ValueOrClose t =
     (case t of
        TLBracket \<Rightarrow> Some (FArr [] # st, ValueOrClose)
      | TLBrace \<Rightarrow> Some (FObj [] # st, KeyOrClose)
      | TRBracket \<Rightarrow> (case st of FArr els # st' \<Rightarrow> complete (JArr (rev els)) st' | _ \<Rightarrow> None)
      | _ \<Rightarrow> (case scalar t of Some v \<Rightarrow> complete v st | None \<Rightarrow> None))"
| "step st KeyOrClose t =
     (case (t, st) of
        (TString k, FObj mems # st') \<Rightarrow> Some (FKey mems k # st', Colon)
      | (TRBrace, FObj mems # st') \<Rightarrow> complete (JObj (rev mems)) st'
      | _ \<Rightarrow> None)"
| "step st Key t =
     (case (t, st) of
        (TString k, FObj mems # st') \<Rightarrow> Some (FKey mems k # st', Colon)
      | _ \<Rightarrow> None)"
| "step st Colon t = (case t of TColon \<Rightarrow> Some (st, Value) | _ \<Rightarrow> None)"
| "step st AfterElem t =
     (case (t, st) of
        (TComma, _) \<Rightarrow> Some (st, Value)
      | (TRBracket, FArr els # st') \<Rightarrow> complete (JArr (rev els)) st'
      | _ \<Rightarrow> None)"
| "step st AfterMember t =
     (case (t, st) of
        (TComma, _) \<Rightarrow> Some (st, Key)
      | (TRBrace, FObj mems # st') \<Rightarrow> complete (JObj (rev mems)) st'
      | _ \<Rightarrow> None)"
| "step st (Done v) t = None"

fun run :: "frame list \<Rightarrow> mode \<Rightarrow> token list \<Rightarrow> json option" where
  "run st m [] = (case (st, m) of ([], Done v) \<Rightarrow> Some v | _ \<Rightarrow> None)"
| "run st m (t # ts) = (case step st m t of None \<Rightarrow> None | Some (st', m') \<Rightarrow> run st' m' ts)"

text \<open>\<open>JSON.parse\<close>; a \<open>SyntaxError\<close> is \<open>None\<close>.\<close>

definition JSON_parse :: "jsstring \<Rightarrow> json option" where
  "JSON_parse text = (case lex text of None \<Rightarrow> None | Some ts \<Rightarrow> run [] Value ts)"

section \<open>Lists of strings\<close>

text \<open>\<^verbatim>\<open>value.split(",")\<close>: the pieces between the separators, at least one.\<close>

fun splitOn :: "jschar \<Rightarrow> jsstring \<Rightarrow> jsstring list" where
  "splitOn sep [] = [[]]"
| "splitOn sep (c # r) =
     (if c = sep then [] # splitOn sep r
      else (case splitOn sep r of [] \<Rightarrow> [[c]] | p # ps \<Rightarrow> (c # p) # ps))"

text \<open>
  \<^verbatim>\<open>
  function parseStringArray(value: string) {
    let candidate: unknown;
    try { candidate = JSON.parse(value); }
    catch { candidate = value.includes(",") ? value.split(",") : [value]; }
    if (!Array.isArray(candidate)) { return null; }
    const sanitizedArray = candidate
      .map((item) => (typeof item === "string" ? item.trim() : ""))
      .filter(Boolean)
      .map((item) => item.replace(/[<>]/g, ""));
    return sanitizedArray.length ? sanitizedArray : null;
  }
  \<close>
\<close>

definition itemTrim :: "json \<Rightarrow> jsstring" where
  "itemTrim item = (case item of JStr s \<Rightarrow> trim s | _ \<Rightarrow> [])"

definition parseStringArray :: "jsstring \<Rightarrow> jsstring list option" where
  "parseStringArray v =
     (let candidate =
            (case JSON_parse v of
               Some j \<Rightarrow> j
             | None \<Rightarrow> JArr (map JStr (if 0x2C \<in> set v then splitOn 0x2C v else [v])))
      in case candidate of
           JArr items \<Rightarrow>
             (let sanitizedArray = map stripAngles (filter (\<lambda>item. item \<noteq> []) (map itemTrim items))
              in if sanitizedArray \<noteq> [] then Some sanitizedArray else None)
         | _ \<Rightarrow> None)"

section \<open>Calendar dates\<close>

text \<open>
  The parts of the host platform that the code calls and whose result is not fixed by
  the language standard alone: what \<open>Date.parse\<close> makes of a string outside the
  standard date-time format (implementation-defined heuristics, local time zone), the
  WHATWG URL parser behind \<open>new URL\<close>, and the media host behind the upload.
\<close>

record URL =
  protocol :: jsstring
  href :: jsstring

record File =
  file_type :: jsstring
  file_size :: nat

record platform =
  dateFallback :: "jsstring \<Rightarrow> int option"
  newURL :: "jsstring \<Rightarrow> URL option"
  upload :: "File \<Rightarrow> jsstring option"

text \<open>
  ECMAScript time values are milliseconds since 1970-01-01T00:00:00Z. The day number
  of a time value \<open>t\<close> is \<open>t div msPerDay\<close>; \<open>DayFromYear\<close>, \<open>DaysInYear\<close> and the month table
  are those of the standard. \<open>YearFromTime\<close> is defined there as the largest year whose
  first day is not after the given day; \<open>yearSearch\<close> finds it from an estimate below.
\<close>

definition msPerDay :: int where
  "msPerDay = 86400000"

definition DaysInYear :: "int \<Rightarrow> int" where
  "DaysInYear y =
     (if y mod 4 \<noteq> 0 then 365 else if y mod 100 \<noteq> 0 then 366
      else if y mod 400 \<noteq> 0 then 365 else 366)"

definition InLeapYear :: "int \<Rightarrow> int" where
  "InLeapYear y = DaysInYear y - 365"

definition DayFromYear :: "int \<Rightarrow> int" where
  "DayFromYear y = 365 * (y - 1970) + (y - 1969) div 4 - (y - 1901) div 100 + (y - 1601) div 400"

function yearSearch :: "int \<Rightarrow> int \<Rightarrow> int" where
  "yearSearch y d = (if DayFromYear (y + 1) \<le> d then yearSearch (y + 1) d else y)"
  by pat_completeness auto
termination
proof (relation "measure (\<lambda>(y, d). nat (d - DayFromYear (y + 1) + 1))")
  fix y d :: int
  assume "DayFromYear (y + 1) \<le> d"
  moreover have "DayFromYear (y + 1) < DayFromYear (y + 1 + 1)"
  proof -
    have a: "(y + 1 - 1969) div 4 \<le> (y + 1 + 1 - 1969) div 4"
      by (rule zdiv_mono1) simp_all
    have c: "(y + 1 - 1601) div 400 \<le> (y + 1 + 1 - 1601) div 400"
      by (rule zdiv_mono1) simp_all
    have "(y + 1 + 1 - 1901) div 100 \<le> (y + 1 - 1901 + 100) div 100"
      by (rule zdiv_mono1) simp_all
    then have b: "(y + 1 + 1 - 1901) div 100 \<le> (y + 1 - 1901) div 100 + 1"
      by simp
    have "365 * (y + 1 - 1970) + p - q + r < 365 * (y + 1 + 1 - 1970) + p' - q' + r'"
      if "p \<le> p'" "q' \<le> q + 1" "r \<le> r'" for p p' q q' r r' :: int
      using that by simp
    from this[OF a b c] show ?thesis
      unfolding DayFromYear_def .
  qed
  ultimately show "((y + 1, d), (y, d)) \<in> measure (\<lambda>(y, d). nat (d - DayFromYear (y + 1) + 1))"
    by simp
qed simp

declare yearSearch.simps [simp del]

definition YearFromDay :: "int \<Rightarrow> int" where
  "YearFromDay d = yearSearch (1970 + (if 0 \<le> d then d div 366 else d div 365)) d"

text \<open>The first day within the year of month \<open>m\<close> (0 to 11), \<open>L\<close> being 1 in a leap year.\<close>

definition monthStart :: "int \<Rightarrow> int \<Rightarrow> int" where
  "monthStart L m =
     (if m \<le> 0 then 0 else if m = 1 then 31 else if m = 2 then 59 + L
      else if m = 3 then 90 + L else if m = 4 then 120 + L else if m = 5 then 151 + L
      else if m = 6 then 181 + L else if m = 7 then 212 + L else if m = 8 then 243 + L
      else if m = 9 then 273 + L else if m = 10 then 304 + L else 334 + L)"

definition MonthFromDay :: "int \<Rightarrow> int \<Rightarrow> int" where
  "MonthFromDay L d =
     (if d < 31 then 0 else if d < 59 + L then 1 else if d < 90 + L then 2
      else if d < 120 + L then 3 else if d < 151 + L then 4 else if d < 181 + L then 5
      else if d < 212 + L then 6 else if d < 243 + L then 7 else if d < 273 + L then 8
      else if d < 304 + L then 9 else if d < 334 + L then 10 else 11)"

definition DateFromDay :: "int \<Rightarrow> int \<Rightarrow> int" where
  "DateFromDay L d = d - monthStart L (MonthFromDay L d) + 1"

definition DaysInMonth :: "int \<Rightarrow> int \<Rightarrow> int" where
  "DaysInMonth y m =
     (if m = 2 then 28 + InLeapYear y
      else if m = 4 \<or> m = 6 \<or> m = 9 \<or> m = 11 then 30 else 31)"

text \<open>
  \<open>Date.prototype.toISOString\<close>: \<^verbatim>\<open>YYYY-MM-DDTHH:mm:ss.sssZ\<close>, with the year written as a
  sign and six digits when it is outside 0 to 9999.
\<close>

definition padNum :: "nat \<Rightarrow> int \<Rightarrow> jsstring" where
  "padNum n x = padStart n 0x30 (toString (nat x))"

definition isoYear :: "int \<Rightarrow> jsstring" where
  "isoYear y =
     (if 0 \<le> y \<and> y \<le> 9999 then padNum 4 y
      else (if y < 0 then 0x2D else 0x2B) # padNum 6 \<bar>y\<bar>)"

definition isoDate :: "int \<Rightarrow> jsstring" where
  "isoDate day =
     (let y = YearFromDay day;
          dayWithinYear = day - DayFromYear y;
          L = InLeapYear y
      in isoYear y @ js ''-'' @ padNum 2 (MonthFromDay L dayWithinYear + 1) @ js ''-'' @
         padNum 2 (DateFromDay L dayWithinYear))"

definition isoTime :: "int \<Rightarrow> jsstring" where
  "isoTime ms =
     padNum 2 (ms div 3600000) @ js '':'' @ padNum 2 (ms div 60000 mod 60) @ js '':'' @
     padNum 2 (ms div 1000 mod 60) @ js ''.'' @ padNum 3 (ms mod 1000)"

definition toISOString :: "int \<Rightarrow> jsstring" where
  "toISOString t = isoDate (t div msPerDay) @ js ''T'' @ isoTime (t mod msPerDay) @ js ''Z''"

text \<open>
  The standard date-time string format, as \<open>Date.parse\<close> must read it: a date
  \<^verbatim>\<open>YYYY\<close>, \<^verbatim>\<open>YYYY-MM\<close> or \<^verbatim>\<open>YYYY-MM-DD\<close> (the year possibly a sign and six digits, not
  \<^verbatim>\<open>-000000\<close>), alone and then taken as UTC, or followed by \<^verbatim>\<open>T\<close>, a time \<^verbatim>\<open>HH:mm\<close>,
  \<^verbatim>\<open>HH:mm:ss\<close> or \<^verbatim>\<open>HH:mm:ss.sss\<close> and an offset \<^verbatim>\<open>Z\<close> or \<^verbatim>\<open>+HH:mm\<close>/\<^verbatim>\<open>-HH:mm\<close>.
  \<open>parseISO\<close> answers for these strings, with every element in its range and the day
  existing in its month. Every other string is left to \<open>dateFallback\<close>: a date-time
  without offset (local time, which depends on the host's time zone), hour 24, and all
  that the standard leaves to the implementation.

  The standard demands \<open>NaN\<close> for a string that the implementation does not recognise.
  Whatever further formats an engine reads, each of them takes the day of the month and
  the year from decimal digits (V8 gives up when it has read no number, SpiderMonkey
  and JavaScriptCore when the year or the day is missing), so a string without any
  decimal digit is recognised by none: \<open>Date_parse\<close> asks the host only about strings
  that hold a digit.
\<close>

definition digitsVal :: "jsstring \<Rightarrow> int option" where
  "digitsVal ds = (if ds \<noteq> [] \<and> list_all isDigit ds then Some (int (decimalValue ds)) else None)"

definition isoYearPart :: "jsstring \<Rightarrow> (int \<times> jsstring) option" where
  "isoYearPart s =
     (if s \<noteq> [] \<and> (hd s = 0x2B \<or> hd s = 0x2D) then
        (if length s < 7 then None
         else (case digitsVal (take 6 (tl s)) of
                 None \<Rightarrow> None
               | Some y \<Rightarrow>
                   if hd s = 0x2D then (if y = 0 then None else Some (- y, drop 7 s))
                   else Some (y, drop 7 s)))
      else if length s < 4 then None
      else map_option (\<lambda>y. (y, drop 4 s)) (digitsVal (take 4 s)))"

definition sepField :: "jschar \<Rightarrow> jsstring \<Rightarrow> (int \<times> jsstring) option" where
  "sepField sep s =
     (case s of
        c # a # b # r \<Rightarrow>
          if c = sep \<and> isDigit a \<and> isDigit b then Some (int (decimalValue [a, b]), r) else None
      | _ \<Rightarrow> None)"

definition isoDatePart :: "jsstring \<Rightarrow> (int \<times> int \<times> int \<times> jsstring) option" where
  "isoDatePart s =
     (case isoYearPart s of
        None \<Rightarrow> None
      | Some (y, r1) \<Rightarrow>
          (case sepField 0x2D r1 of
             None \<Rightarrow> Some (y, 1, 1, r1)
           | Some (m, r2) \<Rightarrow>
               (case sepField 0x2D r2 of
                  None \<Rightarrow> Some (y, m, 1, r2)
                | Some (d, r3) \<Rightarrow> Some (y, m, d, r3))))"

definition isoMillis :: "jsstring \<Rightarrow> (int \<times> jsstring) option" where
  "isoMillis s =
     (case s of
        c # a # b # d # r \<Rightarrow>
          if c = 0x2E \<and> isDigit a \<and> isDigit b \<and> isDigit d
          then Some (int (decimalValue [a, b, d]), r) else None
      | _ \<Rightarrow> None)"

text \<open>The offset in minutes east of UTC; \<open>None\<close> also when there is none.\<close>

definition isoOffset :: "jsstring \<Rightarrow> int option" where
  "isoOffset s =
     (if s = [0x5A] then Some 0
      else (case s of
              [sg, h1, h2, c, m1, m2] \<Rightarrow>
                if (sg = 0x2B \<or> sg = 0x2D) \<and> isDigit h1 \<and> isDigit h2 \<and> c = 0x3A \<and>
                   isDigit m1 \<and> isDigit m2 \<and> decimalValue [h1, h2] \<le> 23 \<and> decimalValue [m1, m2] \<le> 59
                then Some ((if sg = 0x2D then - 1 else 1) *
                           (60 * int (decimalValue [h1, h2]) + int (decimalValue [m1, m2])))
                else None
            | _ \<Rightarrow> None))"

text \<open>After the \<^verbatim>\<open>T\<close>: the milliseconds within the day and the offset.\<close>

definition isoTimePart :: "jsstring \<Rightarrow> (int \<times> int) option" where
  "isoTimePart s =
     (case s of
        h1 # h2 # r0 \<Rightarrow>
          if \<not> (isDigit h1 \<and> isDigit h2) then None
          else (case sepField 0x3A r0 of
                  None \<Rightarrow> None
                | Some (mi, r1) \<Rightarrow>
                    (let hh = int (decimalValue [h1, h2]);
                         (ss, r2) = (case sepField 0x3A r1 of None \<Rightarrow> (0, r1) | Some x \<Rightarrow> x);
                         (ms, r3) = (if r2 = r1 then (0, r2)
                                     else (case isoMillis r2 of None \<Rightarrow> (0, r2) | Some x \<Rightarrow> x))
                     in if hh > 23 \<or> mi > 59 \<or> ss > 59 then None
                        else map_option (\<lambda>off. (((hh * 60 + mi) * 60 + ss) * 1000 + ms, off))
                               (isoOffset r3)))
      | _ \<Rightarrow> None)"

definition parseISO :: "jsstring \<Rightarrow> int option" where
  "parseISO s =
     (case isoDatePart s of
        None \<Rightarrow> None
      | Some (y, m, d, r) \<Rightarrow>
          if \<not> (1 \<le> m \<and> m \<le> 12 \<and> 1 \<le> d \<and> d \<le> DaysInMonth y m) then None
          else
            (let day = DayFromYear y + monthStart (InLeapYear y) (m - 1) + d - 1
             in if r = [] then Some (day * msPerDay)
                else if hd r = 0x54 then
                  (case isoTimePart (tl r) of
                     None \<Rightarrow> None
                   | Some (tod, off) \<Rightarrow> Some (day * msPerDay + tod - off * 60000))
                else None))"

text \<open>
  \<open>new Date(value).getTime()\<close>: the time value, or \<open>NaN\<close> (here \<open>None\<close>), also when the
  instant is outside the range of \<open>TimeClip\<close>.
\<close>

definition TimeClip :: "int \<Rightarrow> int option" where
  "TimeClip t = (if \<bar>t\<bar> \<le> 8640000000000000 then Some t else None)"

definition Date_parse :: "platform \<Rightarrow> jsstring \<Rightarrow> int option" where
  "Date_parse P s =
     (case parseISO s of
        Some t \<Rightarrow> Some t
      | None \<Rightarrow> if list_ex isDigit s then dateFallback P s else None)"

definition newDate :: "platform \<Rightarrow> jsstring \<Rightarrow> int option" where
  "newDate P v = (case Date_parse P v of None \<Rightarrow> None | Some t \<Rightarrow> TimeClip t)"

text \<open>
  \<^verbatim>\<open>
  function normalizeDate(value: string) {
    const parsedDate = new Date(value);
    if (Number.isNaN(parsedDate.getTime())) { return null; }
    return parsedDate.toISOString().split("T")[0];
  }
  \<close>
\<close>

definition normalizeDate :: "platform \<Rightarrow> jsstring \<Rightarrow> jsstring option" where
  "normalizeDate P v =
     (case newDate P v of
        None \<Rightarrow> None
      | Some t \<Rightarrow> (case splitOn 0x54 (toISOString t) of [] \<Rightarrow> None | x # _ \<Rightarrow> Some x))"

section \<open>Image address\<close>

text \<open>
  \<^verbatim>\<open>
  function ensureSecureImageUrl(url: string) {
    try {
      const parsed = new URL(url);
      return parsed.protocol === "https:" ? parsed.toString() : null;
    } catch { return null; }
  }
  \<close>
  \<open>new URL\<close> throws on a string that is no absolute URL (here \<open>None\<close>).
\<close>

definition ensureSecureImageUrl :: "platform \<Rightarrow> jsstring \<Rightarrow> jsstring option" where
  "ensureSecureImageUrl P url =
     (case newURL P url of
        None \<Rightarrow> None
      | Some parsed \<Rightarrow> if protocol parsed = js ''https:'' then Some (href parsed) else None)"

section \<open>The event validator\<close>

text \<open>
  A raw submission maps field names to form entries, a string or a file. The object
  under construction, \<^verbatim>\<open>Partial<SanitizedEvent>\<close>, maps property names to values.
\<close>

datatype FormDataEntryValue = Str jsstring | FileValue File

type_synonym raw = "jsstring \<Rightarrow> FormDataEntryValue option"
type_synonym object = "jsstring \<Rightarrow> json option"
type_synonym vstate = "jsstring list \<times> object"

definition ALLOWED_MODES :: "jsstring list" where
  "ALLOWED_MODES = [js ''online'', js ''offline'', js ''hybrid'']"

definition TEXT_FIELD_LIMITS :: "(jsstring \<times> nat) list" where
  "TEXT_FIELD_LIMITS =
     [(js ''title'', 100), (js ''description'', 1000), (js ''overview'', 500), (js ''venue'', 100),
      (js ''location'', 150), (js ''audience'', 150), (js ''organizer'', 150)]"

text \<open>
  \<open>toLowerCase\<close> on the ASCII letters. Its result is only compared with the three ASCII
  words of \<open>ALLOWED_MODES\<close>, and no other character has a lower case made of ASCII
  letters of these words, so the comparison and the accepted value are exact.
\<close>

definition toLowerCase :: "jsstring \<Rightarrow> jsstring" where
  "toLowerCase s = map (\<lambda>c. if 0x41 \<le> c \<and> c \<le> 0x5A then c + 0x20 else c) s"

fun join :: "jsstring \<Rightarrow> jsstring list \<Rightarrow> jsstring" where
  "join sep [] = []"
| "join sep [x] = x"
| "join sep (x # y # ys) = x @ sep @ join sep (y # ys)"

text \<open>\<^verbatim>\<open>typeof v === "string" ? v : ""\<close>, and the test \<^verbatim>\<open>typeof v !== "string"\<close>.\<close>

definition stringOrEmpty :: "FormDataEntryValue option \<Rightarrow> jsstring" where
  "stringOrEmpty v = (case v of Some (Str s) \<Rightarrow> s | _ \<Rightarrow> [])"

text \<open>
  \<^verbatim>\<open>
  (Object.keys(TEXT_FIELD_LIMITS)).forEach((field) => {
    const rawValue = raw[field];
    if (typeof rawValue !== "string") { errors.push(`${field} is required`); return; }
    const cleanValue = sanitizePlainText(rawValue, TEXT_FIELD_LIMITS[field].maxLength);
    if (!cleanValue) { errors.push(`${field} cannot be empty`); return; }
    sanitized[field] = cleanValue;
  });
  \<close>
\<close>

definition textField :: "raw \<Rightarrow> vstate \<Rightarrow> jsstring \<times> nat \<Rightarrow> vstate" where
  "textField raw st fm =
     (case (st, fm) of
        ((errors, sanitized), (field, maxLength)) \<Rightarrow>
          (case raw field of
             Some (Str rawValue) \<Rightarrow>
               (let cleanValue = sanitizePlainText rawValue maxLength
                in if cleanValue = [] then (errors @ [field @ js '' cannot be empty''], sanitized)
                   else (errors, sanitized(field \<mapsto> JStr cleanValue)))
           | _ \<Rightarrow> (errors @ [field @ js '' is required''], sanitized)))"

definition dateField :: "platform \<Rightarrow> raw \<Rightarrow> vstate \<Rightarrow> vstate" where
  "dateField P raw st =
     (case st of
        (errors, sanitized) \<Rightarrow>
          (case raw (js ''date'') of
             Some (Str rawDate) \<Rightarrow>
               (case normalizeDate P rawDate of
                  None \<Rightarrow> (errors @ [js ''date must be a valid date''], sanitized)
                | Some normalizedDate \<Rightarrow>
                    if normalizedDate = [] then (errors @ [js ''date must be a valid date''], sanitized)
                    else (errors, sanitized(js ''date'' \<mapsto> JStr normalizedDate)))
           | _ \<Rightarrow> (errors @ [js ''date is required''], sanitized)))"

definition timeField :: "raw \<Rightarrow> vstate \<Rightarrow> vstate" where
  "timeField raw st =
     (case st of
        (errors, sanitized) \<Rightarrow>
          (case raw (js ''time'') of
             Some (Str rawTime) \<Rightarrow>
               (case normalizeTime rawTime of
                  None \<Rightarrow> (errors @ [js ''time must be in HH:MM or HH:MM AM/PM format''], sanitized)
                | Some normalizedTime \<Rightarrow>
                    if normalizedTime = []
                    then (errors @ [js ''time must be in HH:MM or HH:MM AM/PM format''], sanitized)
                    else (errors, sanitized(js ''time'' \<mapsto> JStr normalizedTime)))
           | _ \<Rightarrow> (errors @ [js ''time is required''], sanitized)))"

definition modeField :: "raw \<Rightarrow> vstate \<Rightarrow> vstate" where
  "modeField raw st =
     (case st of
        (errors, sanitized) \<Rightarrow>
          (let rawMode = (case raw (js ''mode'') of
                            Some (Str s) \<Rightarrow> toLowerCase (trim s)
                          | _ \<Rightarrow> [])
           in if rawMode \<notin> set ALLOWED_MODES
              then (errors @ [js ''mode must be one of: '' @ join (js '', '') ALLOWED_MODES], sanitized)
              else (errors, sanitized(js ''mode'' \<mapsto> JStr rawMode))))"

text \<open>
  \<^verbatim>\<open>
  const rawAgenda = typeof raw.agenda === "string" ? raw.agenda : "";
  const agendaArray = rawAgenda ? parseStringArray(rawAgenda) : null;
  if (!agendaArray) { errors.push("agenda must be an array of strings with at least one item"); }
  else { sanitized.agenda = agendaArray; }
  \<close>
  and the same for \<open>tags\<close>. An array is never falsy, so only \<open>null\<close> takes the first branch.
\<close>

definition arrayField :: "jsstring \<Rightarrow> raw \<Rightarrow> vstate \<Rightarrow> vstate" where
  "arrayField field raw st =
     (case st of
        (errors, sanitized) \<Rightarrow>
          (let rawArray = stringOrEmpty (raw field);
               array = (if rawArray \<noteq> [] then parseStringArray rawArray else None)
           in case array of
                None \<Rightarrow> (errors @ [field @ js '' must be an array of strings with at least one item''],
                          sanitized)
              | Some xs \<Rightarrow> (errors, sanitized(field \<mapsto> JArr (map JStr xs)))))"

definition imageField :: "platform \<Rightarrow> raw \<Rightarrow> vstate \<Rightarrow> vstate" where
  "imageField P raw st =
     (case st of
        (errors, sanitized) \<Rightarrow>
          (let rawImage = stringOrEmpty (raw (js ''image''))
           in case ensureSecureImageUrl P rawImage of
                None \<Rightarrow> (errors @ [js ''image must be a valid HTTPS URL''], sanitized)
              | Some secureImage \<Rightarrow>
                  if secureImage = [] then (errors @ [js ''image must be a valid HTTPS URL''], sanitized)
                  else (errors, sanitized(js ''image'' \<mapsto> JStr secureImage))))"

text \<open>
  The whole pass: every check runs, the errors accumulate in order, and
  \<^verbatim>\<open>sanitizedEvent: errors.length ? undefined : sanitized\<close>.
\<close>

definition validateFields :: "platform \<Rightarrow> raw \<Rightarrow> vstate" where
  "validateFields P raw =
     imageField P raw
       (arrayField (js ''tags'') raw
         (arrayField (js ''agenda'') raw
           (modeField raw
             (timeField raw
               (dateField P raw
                 (foldl (textField raw) ([], Map.empty) TEXT_FIELD_LIMITS))))))"

definition validateAndSanitizeEvent :: "platform \<Rightarrow> raw \<Rightarrow> jsstring list \<times> object option" where
  "validateAndSanitizeEvent P raw =
     (case validateFields P raw of
        (errors, sanitized) \<Rightarrow> (errors, if errors \<noteq> [] then None else Some sanitized))"

text \<open>
  The type \<open>SanitizedEvent\<close>: the thirteen properties, seven texts, date, time and
  image as strings, the mode one of the allowed words, agenda and tags lists of strings.
\<close>

definition stringFields :: "jsstring list" where
  "stringFields = map fst TEXT_FIELD_LIMITS @ [js ''date'', js ''time'', js ''image'']"

definition isStringArray :: "json option \<Rightarrow> bool" where
  "isStringArray v \<longleftrightarrow> (case v of Some (JArr items) \<Rightarrow> list_all (\<lambda>i. case i of JStr s \<Rightarrow> True | _ \<Rightarrow> False) items | _ \<Rightarrow> False)"

definition isString :: "json option \<Rightarrow> bool" where
  "isString v \<longleftrightarrow> (case v of Some (JStr s) \<Rightarrow> True | _ \<Rightarrow> False)"

definition isSanitizedEvent :: "object \<Rightarrow> bool" where
  "isSanitizedEvent ev \<longleftrightarrow>
     list_all (\<lambda>f. isString (ev f)) stringFields \<and>
     (case ev (js ''mode'') of Some (JStr m) \<Rightarrow> m \<in> set ALLOWED_MODES | _ \<Rightarrow> False) \<and>
     isStringArray (ev (js ''agenda'')) \<and> isStringArray (ev (js ''tags''))"

section \<open>Creating an event\<close>

text \<open>
  The handler of \<^verbatim>\<open>POST /api/events\<close>, from the form data on. It either answers with a
  status, a message and the validation errors, or calls \<open>Event.create\<close>; the model stops
  at that call and returns its argument.
  \<^verbatim>\<open>
  event = Object.fromEntries(formData.entries());
  const file = formData.get('image') as File;
  if (!file) return 400 'Image file is required';
  let tags = JSON.parse(formData.get('tags') as string);
  let agenda = JSON.parse(formData.get('agenda') as string);
  if (!allowedTypes.includes(file.type)) return 400 'Invalid file type. Only images are allowed';
  if (file.size > maxSize) return 400 'File size exceeds 5MB limit';
  const uploadResult = await new Promise(... cloudinary upload ...);
  event.image = uploadResult.secure_url;
  const { sanitizedEvent, errors } = validateAndSanitizeEvent(event);
  if (!sanitizedEvent) return 400 "Validation failed", errors;
  createdEvent = await Event.create({ ...sanitizedEvent, tags: tags, agenda: agenda });
  \<close>
  Any exception before \<open>Event.create\<close> (a \<open>SyntaxError\<close> of \<open>JSON.parse\<close>, a failed
  upload) is caught by the outer handler: status 500, \<open>Event Creation Failed\<close>.
\<close>

datatype outcome =
    Response nat jsstring "jsstring list"
  | Event_create object

type_synonym formData = "(jsstring \<times> FormDataEntryValue) list"

text \<open>\<open>Object.fromEntries\<close> keeps the last entry of a name, \<open>formData.get\<close> gives the first.\<close>

definition fromEntries :: "formData \<Rightarrow> raw" where
  "fromEntries es = map_of (rev es)"

definition formData_get :: "formData \<Rightarrow> jsstring \<Rightarrow> FormDataEntryValue option" where
  "formData_get es name = map_of es name"

text \<open>The conversion to a string that \<open>JSON.parse\<close> applies to its argument.\<close>

definition ToString :: "FormDataEntryValue option \<Rightarrow> jsstring" where
  "ToString v =
     (case v of None \<Rightarrow> js ''null'' | Some (Str s) \<Rightarrow> s | Some (FileValue f) \<Rightarrow> js ''[object File]'')"

definition allowedTypes :: "jsstring list" where
  "allowedTypes = [js ''image/jpeg'', js ''image/png'', js ''image/webp'', js ''image/gif'']"

definition maxSize :: nat where
  "maxSize = 5 * 1024 * 1024"

definition POST :: "platform \<Rightarrow> formData \<Rightarrow> outcome" where
  "POST P formData =
     (let event = fromEntries formData;
          file = formData_get formData (js ''image'')
      in if file = None \<or> file = Some (Str []) then Response 400 (js ''Image file is required'') []
         else
           (case JSON_parse (ToString (formData_get formData (js ''tags''))) of
              None \<Rightarrow> Response 500 (js ''Event Creation Failed'') []
            | Some tags \<Rightarrow>
                (case JSON_parse (ToString (formData_get formData (js ''agenda''))) of
                   None \<Rightarrow> Response 500 (js ''Event Creation Failed'') []
                 | Some agenda \<Rightarrow>
                     (case file of
                        Some (FileValue f) \<Rightarrow>
                          if file_type f \<notin> set allowedTypes
                          then Response 400 (js ''Invalid file type. Only images are allowed'') []
                          else if file_size f > maxSize
                          then Response 400 (js ''File size exceeds 5MB limit'') []
                          else
                            (case upload P f of
                               None \<Rightarrow> Response 500 (js ''Event Creation Failed'') []
                             | Some secure_url \<Rightarrow>
                                 (case validateAndSanitizeEvent P (event(js ''image'' \<mapsto> Str secure_url)) of
                                    (errors, None) \<Rightarrow> Response 400 (js ''Validation failed'') errors
                                  | (errors, Some sanitizedEvent) \<Rightarrow>
                                      Event_create
                                        (sanitizedEvent(js ''tags'' \<mapsto> tags, js ''agenda'' \<mapsto> agenda))))
                      | _ \<Rightarrow> Response 400 (js ''Invalid file type. Only images are allowed'') []))))"

section \<open>The pass as a list of field outcomes\<close>

text \<open>
  Every check of the pass either pushes one message or sets one property. The
  following definitions name the outcome of each check; lemma \<open>validateFields_outcomes\<close>
  proves that the pass of the code is the fold of these outcomes.
\<close>

definition put :: "vstate \<Rightarrow> jsstring \<times> (jsstring + json) \<Rightarrow> vstate" where
  "put st fr =
     (case (st, fr) of
        ((errors, sanitized), (field, Inl e)) \<Rightarrow> (errors @ [e], sanitized)
      | ((errors, sanitized), (field, Inr v)) \<Rightarrow> (errors, sanitized(field \<mapsto> v)))"

definition textOutcome :: "raw \<Rightarrow> jsstring \<times> nat \<Rightarrow> jsstring \<times> (jsstring + json)" where
  "textOutcome raw fm =
     (case fm of
        (field, maxLength) \<Rightarrow>
          (field,
           case raw field of
             Some (Str rawValue) \<Rightarrow>
               if sanitizePlainText rawValue maxLength = [] then Inl (field @ js '' cannot be empty'')
               else Inr (JStr (sanitizePlainText rawValue maxLength))
           | _ \<Rightarrow> Inl (field @ js '' is required'')))"

definition dateOutcome :: "platform \<Rightarrow> raw \<Rightarrow> jsstring + json" where
  "dateOutcome P raw =
     (case raw (js ''date'') of
        Some (Str rawDate) \<Rightarrow>
          (case normalizeDate P rawDate of
             None \<Rightarrow> Inl (js ''date must be a valid date'')
           | Some d \<Rightarrow> if d = [] then Inl (js ''date must be a valid date'') else Inr (JStr d))
      | _ \<Rightarrow> Inl (js ''date is required''))"

definition timeOutcome :: "raw \<Rightarrow> jsstring + json" where
  "timeOutcome raw =
     (case raw (js ''time'') of
        Some (Str rawTime) \<Rightarrow>
          (case normalizeTime rawTime of
             None \<Rightarrow> Inl (js ''time must be in HH:MM or HH:MM AM/PM format'')
           | Some t \<Rightarrow> if t = [] then Inl (js ''time must be in HH:MM or HH:MM AM/PM format'')
                       else Inr (JStr t))
      | _ \<Rightarrow> Inl (js ''time is required''))"

definition rawModeOf :: "raw \<Rightarrow> jsstring" where
  "rawModeOf raw = (case raw (js ''mode'') of Some (Str s) \<Rightarrow> toLowerCase (trim s) | _ \<Rightarrow> [])"

definition modeOutcome :: "raw \<Rightarrow> jsstring + json" where
  "modeOutcome raw =
     (if rawModeOf raw \<notin> set ALLOWED_MODES
      then Inl (js ''mode must be one of: '' @ join (js '', '') ALLOWED_MODES)
      else Inr (JStr (rawModeOf raw)))"

definition arrayOf :: "jsstring \<Rightarrow> raw \<Rightarrow> jsstring list option" where
  "arrayOf field raw =
     (if stringOrEmpty (raw field) \<noteq> [] then parseStringArray (stringOrEmpty (raw field)) else None)"

definition arrayOutcome :: "jsstring \<Rightarrow> raw \<Rightarrow> jsstring + json" where
  "arrayOutcome field raw =
     (case arrayOf field raw of
        None \<Rightarrow> Inl (field @ js '' must be an array of strings with at least one item'')
      | Some xs \<Rightarrow> Inr (JArr (map JStr xs)))"

definition imageOutcome :: "platform \<Rightarrow> raw \<Rightarrow> jsstring + json" where
  "imageOutcome P raw =
     (case ensureSecureImageUrl P (stringOrEmpty (raw (js ''image''))) of
        None \<Rightarrow> Inl (js ''image must be a valid HTTPS URL'')
      | Some u \<Rightarrow> if u = [] then Inl (js ''image must be a valid HTTPS URL'') else Inr (JStr u))"

definition fieldOutcomes :: "platform \<Rightarrow> raw \<Rightarrow> (jsstring \<times> (jsstring + json)) list" where
  "fieldOutcomes P raw =
     map (textOutcome raw) TEXT_FIELD_LIMITS @
     [(js ''date'', dateOutcome P raw), (js ''time'', timeOutcome raw), (js ''mode'', modeOutcome raw),
      (js ''agenda'', arrayOutcome (js ''agenda'') raw), (js ''tags'', arrayOutcome (js ''tags'') raw),
      (js ''image'', imageOutcome P raw)]"

definition errorsOf :: "(jsstring \<times> (jsstring + json)) list \<Rightarrow> jsstring list" where
  "errorsOf frs = concat (map (\<lambda>fr. case snd fr of Inl e \<Rightarrow> [e] | Inr v \<Rightarrow> []) frs)"

definition valuesOf :: "(jsstring \<times> (jsstring + json)) list \<Rightarrow> (jsstring \<times> json) list" where
  "valuesOf frs = concat (map (\<lambda>fr. case snd fr of Inl e \<Rightarrow> [] | Inr v \<Rightarrow> [(fst fr, v)]) frs)"

section \<open>A sample host and a sample submission\<close>

text \<open>
  A host whose date parser knows the standard format only, whose URL parser knows one
  address of the media host (and answers for it what every URL parser does: the scheme
  \<open>https:\<close> and the address unchanged), and whose upload returns that address. The
  sample form is a well-formed request; \<open>sampleRaw\<close> is the submission the handler
  passes to the validator for it, the image entry replaced by the uploaded address.
\<close>

definition sampleUrl :: jsstring where
  "sampleUrl = js ''https://res.cloudinary.com/demo/image/upload/a.png''"

definition sampleHost :: platform where
  "sampleHost =
     \<lparr>dateFallback = (\<lambda>s. None),
      newURL = (\<lambda>u. if u = sampleUrl then Some \<lparr>protocol = js ''https:'', href = u\<rparr> else None),
      upload = (\<lambda>f. Some sampleUrl)\<rparr>"

definition sampleFile :: File where
  "sampleFile = \<lparr>file_type = js ''image/png'', file_size = 2048\<rparr>"

definition sampleEntries :: formData where
  "sampleEntries =
     [(js ''title'', Str (js ''  <b>Hi</b>  '')), (js ''description'', Str (js ''Talks'')),
      (js ''overview'', Str (js ''A day of talks'')), (js ''venue'', Str (js ''Hall 1'')),
      (js ''location'', Str (js ''Lima'')), (js ''audience'', Str (js ''Developers'')),
      (js ''organizer'', Str (js ''DevEvent'')), (js ''date'', Str (js ''2024-03-15'')),
      (js ''time'', Str (js ''2:30 PM'')), (js ''mode'', Str (js '' Online '')),
      (js ''agenda'', Str (js ''[\"Intro\"]'')), (js ''tags'', Str (js ''[\"<b>AI</b>\",\"Cloud\"]'')),
      (js ''image'', FileValue sampleFile)]"

definition sampleRaw :: raw where
  "sampleRaw = (fromEntries sampleEntries)(js ''image'' \<mapsto> Str sampleUrl)"

section \<open>Statements of the specification, in its words\<close>

text \<open>
  The specification's text-field rule: trim; an empty trimmed value is the error
  \<open>cannot be empty\<close>; otherwise strip the angle brackets and truncate.
\<close>

definition sanitizeText_spec :: "jsstring \<Rightarrow> nat \<Rightarrow> jsstring \<Rightarrow> jsstring + json" where
  "sanitizeText_spec field maxLength v =
     (if trim v = [] then Inl (field @ js '' cannot be empty'')
      else Inr (JStr (take maxLength (stripAngles (trim v)))))"

text \<open>\<^verbatim>\<open>typeof v === "string"\<close>, and the fields whose absence is reported as \<open>is required\<close>.\<close>

definition isStringEntry :: "FormDataEntryValue option \<Rightarrow> bool" where
  "isStringEntry v \<longleftrightarrow> (case v of Some (Str s) \<Rightarrow> True | _ \<Rightarrow> False)"

definition requiredFields :: "jsstring list" where
  "requiredFields = map fst TEXT_FIELD_LIMITS @ [js ''date'', js ''time'']"

definition formatFields :: "jsstring list" where
  "formatFields = [js ''mode'', js ''agenda'', js ''tags'', js ''image'']"

definition formatMessage :: "jsstring \<Rightarrow> jsstring" where
  "formatMessage f =
     (if f = js ''mode'' then js ''mode must be one of: online, offline, hybrid''
      else if f = js ''image'' then js ''image must be a valid HTTPS URL''
      else f @ js '' must be an array of strings with at least one item'')"

text \<open>
  The specification's rule for the elements of a parsed list: a non-string becomes the
  empty string, every element is trimmed, the empty ones are dropped, the angle
  brackets are stripped, and a list left empty is rejected.
\<close>

definition sanitizeItems_spec :: "json list \<Rightarrow> jsstring list option" where
  "sanitizeItems_spec items =
     (let strings = map (\<lambda>i. case i of JStr s \<Rightarrow> s | _ \<Rightarrow> []) items;
          kept = filter (\<lambda>s. s \<noteq> []) (map trim strings);
          stripped = map stripAngles kept
      in if stripped = [] then None else Some stripped)"

text \<open>The shape \<^verbatim>\<open>YYYY-MM-DD\<close>: ten characters, digits around two hyphens.\<close>

definition isoCalendarDate :: "jsstring \<Rightarrow> bool" where
  "isoCalendarDate s \<longleftrightarrow>
     length s = 10 \<and> list_all isDigit (take 4 s) \<and> s ! 4 = 0x2D \<and>
     list_all isDigit (take 2 (drop 5 s)) \<and> s ! 7 = 0x2D \<and> list_all isDigit (drop 8 s)"

text \<open>
  The specification validates the field values of a returned record again, as strings.
  A property of a \<open>SanitizedEvent\<close> is a string or a list of strings; a list is sent
  the way a client sends it, as its JSON text, which is the form \<open>parseStringArray\<close>
  reads first. \<open>JSON_stringify\<close> is \<^verbatim>\<open>JSON.stringify\<close> on a list of strings: the
  elements quoted by the standard's \<open>QuoteJSONString\<close> (the short escapes, and the
  escape with four hexadecimal digits for the other control characters and for a
  surrogate without its partner), separated by commas, in brackets.
\<close>

definition hexDigit :: "nat \<Rightarrow> jschar" where
  "hexDigit d = (if d < 10 then of_nat (48 + d) else of_nat (87 + d))"

definition UnicodeEscape :: "jschar \<Rightarrow> jsstring" where
  "UnicodeEscape c =
     [0x5C, 0x75] @ [hexDigit (unat c div 4096), hexDigit (unat c div 256 mod 16),
                  hexDigit (unat c div 16 mod 16), hexDigit (unat c mod 16)]"

definition isLeadingSurrogate :: "jschar \<Rightarrow> bool" where
  "isLeadingSurrogate c \<longleftrightarrow> 0xD800 \<le> c \<and> c \<le> 0xDBFF"

definition isTrailingSurrogate :: "jschar \<Rightarrow> bool" where
  "isTrailingSurrogate c \<longleftrightarrow> 0xDC00 \<le> c \<and> c \<le> 0xDFFF"

definition quoteUnit :: "jschar \<Rightarrow> jsstring" where
  "quoteUnit c =
     (if c = 0x8 then [0x5C, 0x62] else if c = 0x9 then [0x5C, 0x74] else if c = 0xA then [0x5C, 0x6E]
      else if c = 0xC then [0x5C, 0x66] else if c = 0xD then [0x5C, 0x72]
      else if c = 0x22 then [0x5C, 0x22] else if c = 0x5C then [0x5C, 0x5C]
      else if c < 0x20 \<or> isLeadingSurrogate c \<or> isTrailingSurrogate c then UnicodeEscape c
      else [c])"

fun quoteUnits :: "jsstring \<Rightarrow> jsstring" where
  "quoteUnits [] = []"
| "quoteUnits [c] = quoteUnit c"
| "quoteUnits (c # d # cs) =
     (if isLeadingSurrogate c \<and> isTrailingSurrogate d then c # d # quoteUnits cs
      else quoteUnit c @ quoteUnits (d # cs))"

definition QuoteJSONString :: "jsstring \<Rightarrow> jsstring" where
  "QuoteJSONString s = js ''\"'' @ quoteUnits s @ js ''\"''"

definition JSON_stringify :: "jsstring list \<Rightarrow> jsstring" where
  "JSON_stringify items = js ''['' @ join (js '','') (map QuoteJSONString items) @ js '']''"

text \<open>The submission made of the properties of a record, each as a string.\<close>

definition asStrings_spec :: "object \<Rightarrow> raw" where
  "asStrings_spec ev =
     (\<lambda>field. case ev field of
        Some (JStr s) \<Rightarrow> Some (Str s)
      | Some (JArr items) \<Rightarrow> Some (Str (JSON_stringify (map (\<lambda>i. case i of JStr s \<Rightarrow> s | _ \<Rightarrow> []) items)))
      | _ \<Rightarrow> None)"

section \<open>Properties of the time normalizer\<close>

lemma letter_not_ws: "isA a \<or> isP a \<Longrightarrow> \<not> isWhiteSpace a"
  by (auto simp: isA_def isP_def isWhiteSpace_def)

lemma dropWhile_ws_suffix:
  "\<forall>w\<in>set ws. isWhiteSpace w \<Longrightarrow> \<not> isWhiteSpace a \<Longrightarrow> dropWhile isWhiteSpace (ws @ a # r) = a # r"
  by (induction ws) auto

lemma matchSuffix_nonempty:
  assumes "sfx \<noteq> []"
  shows "matchSuffix sfx = Some g \<longleftrightarrow>
     (\<exists>a m. dropWhile isWhiteSpace sfx = [a, m] \<and> (isA a \<or> isP a) \<and> isM m \<and> g = Some [a, m])"
proof (cases "dropWhile isWhiteSpace sfx")
  case Nil
  show ?thesis using assms unfolding matchSuffix_def Nil by simp
next
  case (Cons a r)
  note c1 = this
  show ?thesis
  proof (cases r)
    case Nil
    show ?thesis using assms unfolding matchSuffix_def c1 Nil by simp
  next
    case (Cons m r')
    note c2 = this
    show ?thesis
    proof (cases r')
      case Nil
      show ?thesis using assms unfolding matchSuffix_def c1 c2 Nil by auto
    next
      case (Cons x r'')
      show ?thesis using assms unfolding matchSuffix_def c1 c2 Cons by simp
    qed
  qed
qed


lemma dropWhile_ws_eq:
  "dropWhile isWhiteSpace sfx = a # r \<longleftrightarrow>
     (\<exists>ws. sfx = ws @ a # r \<and> (\<forall>w\<in>set ws. isWhiteSpace w) \<and> \<not> isWhiteSpace a)"
proof
  assume h: "dropWhile isWhiteSpace sfx = a # r"
  have 1: "sfx = takeWhile isWhiteSpace sfx @ a # r"
    using takeWhile_dropWhile_id[of isWhiteSpace sfx] unfolding h by simp
  have 2: "\<forall>w\<in>set (takeWhile isWhiteSpace sfx). isWhiteSpace w"
    using set_takeWhileD by fast
  have 3: "\<not> isWhiteSpace a"
    using dropWhile_eq_Cons_conv[of isWhiteSpace sfx a r] h by simp
  show "\<exists>ws. sfx = ws @ a # r \<and> (\<forall>w\<in>set ws. isWhiteSpace w) \<and> \<not> isWhiteSpace a"
    using 1 2 3 by (intro exI[of _ "takeWhile isWhiteSpace sfx"] conjI)
next
  assume "\<exists>ws. sfx = ws @ a # r \<and> (\<forall>w\<in>set ws. isWhiteSpace w) \<and> \<not> isWhiteSpace a"
  then obtain ws where "sfx = ws @ a # r" "\<forall>w\<in>set ws. isWhiteSpace w" "\<not> isWhiteSpace a"
    by (elim exE conjE)
  then show "dropWhile isWhiteSpace sfx = a # r"
    by (simp add: dropWhile_ws_suffix)
qed


lemma matchSuffix_Some:
  "matchSuffix sfx = Some g \<longleftrightarrow>
     (sfx = [] \<and> g = None) \<or>
     (\<exists>ws a m. sfx = ws @ [a, m] \<and> (\<forall>w\<in>set ws. isWhiteSpace w) \<and> (isA a \<or> isP a) \<and> isM m \<and> g = Some [a, m])"
proof (cases "sfx = []")
  case True
  then show ?thesis by (auto simp: matchSuffix_def)
next
  case False
  have "matchSuffix sfx = Some g \<longleftrightarrow>
     (\<exists>a m. (\<exists>ws. sfx = ws @ [a, m] \<and> (\<forall>w\<in>set ws. isWhiteSpace w) \<and> \<not> isWhiteSpace a) \<and> (isA a \<or> isP a) \<and> isM m \<and> g = Some [a, m])"
    unfolding matchSuffix_nonempty[OF False] dropWhile_ws_eq ..
  also have "\<dots> \<longleftrightarrow> (\<exists>ws a m. sfx = ws @ [a, m] \<and> (\<forall>w\<in>set ws. isWhiteSpace w) \<and> (isA a \<or> isP a) \<and> isM m \<and> g = Some [a, m])"
    using letter_not_ws by blast
  finally show ?thesis using False by simp
qed


lemma digit_not_colon: "isDigit c \<Longrightarrow> c \<noteq> 0x3A"
  by (auto simp: isDigit_def)

lemma length1: "length xs = Suc 0 \<longleftrightarrow> (\<exists>a. xs = [a])"
  by (cases xs) auto
lemma length2: "length xs = 2 \<longleftrightarrow> (\<exists>a b. xs = [a, b])"
  by (cases xs; cases "tl xs") auto



lemma timeRegex_sound:
  assumes "timeRegex s = Some (g1, g2, g3)"
  shows "\<exists>sfx. s = g1 @ [0x3A] @ g2 @ sfx \<and> (length g1 = 1 \<or> length g1 = 2) \<and> length g2 = 2 \<and>
        (\<forall>c\<in>set (g1 @ g2). isDigit c) \<and> matchSuffix sfx = Some g3"
using assms proof (induction s rule: timeRegex.induct)
  case (1 h1 h2 c m1 m2 r)
  show ?case
  proof (cases "isDigit h1 \<and> isDigit h2 \<and> c = 0x3A \<and> isDigit m1 \<and> isDigit m2")
    case True
    from 1 have "g1 = [h1, h2]" "g2 = [m1, m2]" "matchSuffix r = Some g3"
      unfolding timeRegex.simps if_P[OF True] by auto
    with True show ?thesis by (intro exI[of _ r]) simp
  next
    case False
    note F = this
    show ?thesis
    proof (cases "isDigit h1 \<and> h2 = 0x3A \<and> isDigit c \<and> isDigit m1")
      case True
      from 1 have "g1 = [h1]" "g2 = [c, m1]" "matchSuffix (m2 # r) = Some g3"
        unfolding timeRegex.simps if_not_P[OF F] if_P[OF True] by auto
      with True show ?thesis by (intro exI[of _ "m2 # r"]) simp
    next
      case False
      from 1 show ?thesis unfolding timeRegex.simps if_not_P[OF F] if_not_P[OF False] by simp
    qed
  qed
next
  case (2 h1 c m1 m2)
  show ?case
  proof (cases "isDigit h1 \<and> c = 0x3A \<and> isDigit m1 \<and> isDigit m2")
    case True
    from 2 have "g1 = [h1]" "g2 = [m1, m2]" "g3 = None"
      unfolding timeRegex.simps if_P[OF True] by auto
    with True show ?thesis by (intro exI[of _ "[]"]) (simp add: matchSuffix_def)
  next
    case False
    from 2 show ?thesis unfolding timeRegex.simps if_not_P[OF False] by simp
  qed
qed simp_all


lemma timeRegex_complete:
  assumes "s = g1 @ [0x3A] @ g2 @ sfx" "length g1 = 1 \<or> length g1 = 2" "length g2 = 2"
    "\<forall>c\<in>set (g1 @ g2). isDigit c" "matchSuffix sfx = Some g3"
  shows "timeRegex s = Some (g1, g2, g3)"
proof -
  from assms(3) obtain m1 m2 where g2: "g2 = [m1, m2]" by (auto simp: length2)
  from assms(4) g2 have dm: "isDigit m1" "isDigit m2" by auto
  from assms(2) show ?thesis
  proof
    assume "length g1 = 1"
    then obtain h1 where g1: "g1 = [h1]" by (auto simp: length1)
    from assms(4) g1 have dh: "isDigit h1" by auto
    show ?thesis
    proof (cases sfx)
      case Nil
      with assms(5) have "g3 = None" by (simp add: matchSuffix_def)
      with assms(1) g1 g2 Nil dh dm show ?thesis by simp
    next
      case (Cons x r)
      have nd: "\<not> isDigit (0x3A :: jschar)" by (simp add: isDigit_def)
      from assms(1) g1 g2 Cons have s: "s = h1 # 0x3A # m1 # m2 # x # r" by simp
      show ?thesis unfolding s timeRegex.simps using nd dh dm assms(5) g1 g2 Cons by simp
    qed
  next
    assume "length g1 = 2"
    then obtain h1 h2 where g1: "g1 = [h1, h2]" by (auto simp: length2)
    from assms(4) g1 have dh: "isDigit h1" "isDigit h2" by auto
    from assms(1) g1 g2 have s: "s = h1 # h2 # 0x3A # m1 # m2 # sfx" by simp
    show ?thesis unfolding s timeRegex.simps using dh dm assms(5) g1 g2 by simp
  qed
qed

lemma digit_props: "isDigit c \<Longrightarrow> \<not> isWhiteSpace c \<and> c \<noteq> 0x2D \<and> c \<noteq> 0x2B"
  by (auto simp: isDigit_def isWhiteSpace_def word_le_nat_alt)

lemma parseInt_digits:
  assumes "ds \<noteq> []" "\<forall>c\<in>set ds. isDigit c"
  shows "parseInt ds = Some (int (decimalValue ds))"
proof -
  from assms obtain d r where ds: "ds = d # r" by (cases ds) auto
  with assms have d: "isDigit d" by simp
  have t: "trimStart ds = ds" using digit_props[OF d] by (simp add: trimStart_def ds)
  have tw: "takeWhile isDigit ds = ds" using assms(2) by (simp add: takeWhile_eq_all_conv)
  show ?thesis
    unfolding parseInt_def t Let_def using digit_props[OF d] tw assms(1) by (simp add: ds)
qed

lemma pad_twoDigits: "n < 100 \<Longrightarrow> padStart 2 0x30 (toString n) = twoDigits n"
proof (cases "n < 10")
  case True
  then show ?thesis by (simp add: padStart_def toString.simps twoDigits_def digitChar_def)
next
  case False
  assume "n < 100"
  with False have "n div 10 < 10" by simp
  with False show ?thesis
    by (simp add: padStart_def toString.simps[of n] toString.simps[of "n div 10"] twoDigits_def)
qed


lemma matchSuffix_period:
  assumes "matchSuffix sfx = Some g"
  shows "\<exists>p. periodSuffix sfx p \<and> periodGroup g p"
proof -
  from assms consider (none) "sfx = []" "g = None"
    | (some) ws a m where "sfx = ws @ [a, m]" "\<forall>w\<in>set ws. isWhiteSpace w" "isA a \<or> isP a" "isM m" "g = Some [a, m]"
    unfolding matchSuffix_Some by blast
  then show ?thesis
  proof cases
    case none
    then have "periodSuffix sfx None \<and> periodGroup g None"
      by (simp add: periodSuffix_def periodGroup_def)
    then show ?thesis ..
  next
    case some
    from some(3) show ?thesis
    proof
      assume "isA a"
      with some have "periodSuffix sfx (Some AM) \<and> periodGroup g (Some AM)"
        unfolding periodSuffix_def periodGroup_def periodWord_def by auto
      then show ?thesis ..
    next
      assume "isP a"
      with some have "periodSuffix sfx (Some PM) \<and> periodGroup g (Some PM)"
        unfolding periodSuffix_def periodGroup_def periodWord_def by auto
      then show ?thesis ..
    qed
  qed
qed

lemma period_matchSuffix:
  assumes "periodSuffix sfx p"
  shows "\<exists>g. matchSuffix sfx = Some g \<and> periodGroup g p"
proof (cases p)
  case None
  with assms have "matchSuffix sfx = Some None \<and> periodGroup None p"
    by (simp add: periodSuffix_def periodGroup_def matchSuffix_def)
  then show ?thesis ..
next
  case (Some q)
  with assms obtain ws a m where h: "sfx = ws @ [a, m]" "\<forall>w\<in>set ws. isWhiteSpace w" "periodWord q a m"
    unfolding periodSuffix_def by auto
  from h(3) have l: "isA a \<or> isP a" "isM m" by (cases q; simp add: periodWord_def)+
  have "matchSuffix sfx = Some (Some [a, m])"
    unfolding matchSuffix_Some using h l by blast
  moreover have "periodGroup (Some [a, m]) p"
    using h(3) Some by (simp add: periodGroup_def)
  ultimately show ?thesis by blast
qed

lemma toUpperCase_period:
  assumes "periodWord q a m"
  shows "toUpperCase [a, m] = js (case q of AM \<Rightarrow> ''AM'' | PM \<Rightarrow> ''PM'')"
  using assms by (cases q) (auto simp: periodWord_def isA_def isP_def isM_def toUpperCase_def js_def)

lemma normalizeTime_unfold:
  assumes "timeRegex (trim v) = Some (g1, g2, g3)" "parseInt g1 = Some h" "parseInt g2 = Some m"
    "map_option toUpperCase g3 = P"
  shows "normalizeTime v =
     (let hours1 = (if P = Some (js ''PM'') \<and> h \<noteq> 12 then h + 12 else h);
          hours = (if P = Some (js ''AM'') \<and> hours1 = 12 then 0 else hours1)
      in if hours > 23 \<or> m > 59 then None
         else Some (padStart 2 0x30 (toString (nat hours)) @ js '':'' @
                    padStart 2 0x30 (toString (nat m))))"
  unfolding normalizeTime_def assms(1) option.case prod.case assms(2,3,4) by (simp add: Let_def)

lemma normalizeTime_groups:
  assumes re: "timeRegex (trim v) = Some (g1, g2, g3)"
    and g1: "g1 \<noteq> []" "\<forall>c\<in>set g1. isDigit c"
    and g2: "g2 \<noteq> []" "\<forall>c\<in>set g2. isDigit c"
    and g3: "periodGroup g3 p"
  shows "normalizeTime v =
     (if to24h p (decimalValue g1) \<le> 23 \<and> decimalValue g2 \<le> 59
      then Some (twoDigits (to24h p (decimalValue g1)) @ js '':'' @ twoDigits (decimalValue g2))
      else None)"
proof -
  have up: "map_option toUpperCase g3 = (case p of None \<Rightarrow> None | Some AM \<Rightarrow> Some (js ''AM'') | Some PM \<Rightarrow> Some (js ''PM''))"
  proof (cases p)
    case None with g3 show ?thesis by (simp add: periodGroup_def)
  next
    case (Some q)
    with g3 obtain a m where "g3 = Some [a, m]" "periodWord q a m" by (auto simp: periodGroup_def)
    with Some show ?thesis using toUpperCase_period[of q a m] by (cases q) simp_all
  qed
  have ne: "js ''AM'' \<noteq> js ''PM''" by (simp add: js_def)
  have pad: "\<And>n. n < 100 \<Longrightarrow> padStart 2 0x30 (toString n) = twoDigits n" by (rule pad_twoDigits)
  have p1: "parseInt g1 = Some (int (decimalValue g1))" by (rule parseInt_digits[OF g1])
  have p2: "parseInt g2 = Some (int (decimalValue g2))" by (rule parseInt_digits[OF g2])
  have n12: "\<And>a. nat (int a + 12) = a + 12" by simp
  note unf = normalizeTime_unfold[OF re p1 p2]
  show ?thesis
  proof (cases p)
    case None
    with up have "map_option toUpperCase g3 = None" by simp
    from unf[OF this] show ?thesis
      by (simp add: to24h_def Let_def pad None)
  next
    case (Some q)
    show ?thesis
    proof (cases q)
      case AM
      with up Some have "map_option toUpperCase g3 = Some (js ''AM'')" by simp
      from unf[OF this] ne show ?thesis
        by (simp add: to24h_def Let_def pad Some AM)
    next
      case PM
      with up Some have "map_option toUpperCase g3 = Some (js ''PM'')" by simp
      from unf[OF this] ne show ?thesis
        by (simp add: to24h_def Let_def pad Some PM n12)
    qed
  qed
qed


lemma normalizeTime_iff:
  "normalizeTime v = Some r \<longleftrightarrow>
     (\<exists>hs ms sfx p.
        trim v = hs @ js '':'' @ ms @ sfx \<and> (length hs = 1 \<or> length hs = 2) \<and> length ms = 2 \<and>
        (\<forall>c\<in>set (hs @ ms). isDigit c) \<and> periodSuffix sfx p \<and>
        to24h p (decimalValue hs) \<le> 23 \<and> decimalValue ms \<le> 59 \<and>
        r = twoDigits (to24h p (decimalValue hs)) @ js '':'' @ twoDigits (decimalValue ms))"
  (is "?L \<longleftrightarrow> ?R")
proof
  assume L: ?L
  then obtain g1 g2 g3 where re: "timeRegex (trim v) = Some (g1, g2, g3)"
    by (cases "timeRegex (trim v)") (auto simp: normalizeTime_def)
  from timeRegex_sound[OF re] obtain sfx where
    s: "trim v = g1 @ [0x3A] @ g2 @ sfx" "length g1 = 1 \<or> length g1 = 2" "length g2 = 2"
       "\<forall>c\<in>set (g1 @ g2). isDigit c" "matchSuffix sfx = Some g3"
    by blast
  from matchSuffix_period[OF s(5)] obtain p where p: "periodSuffix sfx p" "periodGroup g3 p"
    by blast
  have ne: "g1 \<noteq> []" "g2 \<noteq> []" using s(2,3) by auto
  have dg: "\<forall>c\<in>set g1. isDigit c" "\<forall>c\<in>set g2. isDigit c" using s(4) by auto
  note eq = normalizeTime_groups[OF re ne(1) dg(1) ne(2) dg(2) p(2)]
  from L eq have c: "to24h p (decimalValue g1) \<le> 23 \<and> decimalValue g2 \<le> 59"
    by (metis option.distinct(1))
  with L eq have r: "r = twoDigits (to24h p (decimalValue g1)) @ js '':'' @ twoDigits (decimalValue g2)"
    by simp
  have colon: "js '':'' = [0x3A]" by (simp add: js_def)
  show ?R
    using s(1,2,3,4) p(1) c r unfolding colon by blast
next
  assume ?R
  then obtain hs ms sfx p where
    h: "trim v = hs @ js '':'' @ ms @ sfx" "length hs = 1 \<or> length hs = 2" "length ms = 2"
       "\<forall>c\<in>set (hs @ ms). isDigit c" "periodSuffix sfx p"
       "to24h p (decimalValue hs) \<le> 23" "decimalValue ms \<le> 59"
       "r = twoDigits (to24h p (decimalValue hs)) @ js '':'' @ twoDigits (decimalValue ms)"
    by blast
  have colon: "js '':'' = [0x3A]" by (simp add: js_def)
  from period_matchSuffix[OF h(5)] obtain g3 where g3: "matchSuffix sfx = Some g3" "periodGroup g3 p"
    by blast
  have re: "timeRegex (trim v) = Some (hs, ms, g3)"
    using timeRegex_complete[OF h(1)[unfolded colon] h(2) h(3) h(4) g3(1)] .
  have ne: "hs \<noteq> []" "ms \<noteq> []" using h(2,3) by auto
  have dg: "\<forall>c\<in>set hs. isDigit c" "\<forall>c\<in>set ms. isDigit c" using h(4) by auto
  show ?L
    using normalizeTime_groups[OF re ne(1) dg(1) ne(2) dg(2) g3(2)] h(6,7,8) by simp
qed

text \<open>
  Claim C4. \<open>normalizeTime\<close> accepts exactly the trimmed inputs of the form \<open>H:MM\<close> or
  \<open>HH:MM\<close>, optionally followed by white space and \<open>AM\<close> or \<open>PM\<close> in either case.
  \<open>PM\<close> adds 12 to an hour other than 12, \<open>AM\<close> turns hour 12 into 0; the input is
  rejected when the resulting hour exceeds 23 or the minute exceeds 59, and the result
  is otherwise the two numbers printed with two digits each. So \<open>2:30 PM\<close> gives
  \<open>14:30\<close>, \<open>12:15 AM\<close> gives \<open>00:15\<close> and \<open>25:00\<close> is rejected.
\<close>

theorem normalizeTime_pattern:
  "(normalizeTime v = Some r \<longleftrightarrow>
     (\<exists>hs ms sfx p.
        trim v = hs @ js '':'' @ ms @ sfx \<and> (length hs = 1 \<or> length hs = 2) \<and> length ms = 2 \<and>
        (\<forall>c\<in>set (hs @ ms). isDigit c) \<and> periodSuffix sfx p \<and>
        to24h p (decimalValue hs) \<le> 23 \<and> decimalValue ms \<le> 59 \<and>
        r = twoDigits (to24h p (decimalValue hs)) @ js '':'' @ twoDigits (decimalValue ms))) \<and>
   normalizeTime (js ''2:30 PM'') = Some (js ''14:30'') \<and>
   normalizeTime (js ''12:15 AM'') = Some (js ''00:15'') \<and>
   normalizeTime (js ''25:00'') = None"
proof (intro conjI)
  show "normalizeTime (js ''2:30 PM'') = Some (js ''14:30'')" by code_simp
  show "normalizeTime (js ''12:15 AM'') = Some (js ''00:15'')" by code_simp
  show "normalizeTime (js ''25:00'') = None" by code_simp
qed (rule normalizeTime_iff)

theorem normalizeTime_pattern_witness:
  "normalizeTime (js ''9:05 am'') = Some (js ''09:05'')"
proof -
  have "trim (js ''9:05 am'') = js ''9'' @ js '':'' @ js ''05'' @ js '' am'' \<and>
        (length (js ''9'') = 1 \<or> length (js ''9'') = 2) \<and> length (js ''05'') = 2 \<and>
        (\<forall>c\<in>set (js ''9'' @ js ''05''). isDigit c) \<and> periodSuffix (js '' am'') (Some AM) \<and>
        to24h (Some AM) (decimalValue (js ''9'')) \<le> 23 \<and> decimalValue (js ''05'') \<le> 59 \<and>
        js ''09:05'' = twoDigits (to24h (Some AM) (decimalValue (js ''9''))) @ js '':'' @
                       twoDigits (decimalValue (js ''05''))"
  proof (intro conjI)
    show "periodSuffix (js '' am'') (Some AM)"
      unfolding periodSuffix_def
      by (simp, intro exI[of _ "js '' ''"] exI[of _ "0x61"] exI[of _ "0x6D"])
         (simp add: js_def isWhiteSpace_def periodWord_def isA_def isM_def)
  qed (simp_all add: js_def trim_def isWhiteSpace_def isDigit_def to24h_def decimalValue_def
         digitVal_def twoDigits_def digitChar_def)
  then show ?thesis
    using normalizeTime_pattern[of "js ''9:05 am''" "js ''09:05''"] by blast
qed

section \<open>Properties of the pagination\<close>

lemma ulp_pos: "0 < ulp m"
  by (induction m rule: ulp.induct) (simp add: ulp.simps)

lemma ulp_small: "m < 2 ^ 53 \<Longrightarrow> ulp m = 1"
  by (simp add: ulp.simps)

lemma ulp_normal: "2 ^ 52 \<le> m \<Longrightarrow> 2 ^ 52 \<le> m div ulp m"
proof (induction m rule: ulp.induct)
  case (1 m)
  show ?case
  proof (cases "m < 2 ^ 53")
    case True
    then show ?thesis using 1(2) by (simp add: ulp_small)
  next
    case False
    then have h: "(2::int) ^ 52 \<le> m div 2" by simp
    have "m div ulp m = (m div 2) div ulp (m div 2)"
      using False ulp_pos[of "m div 2"] by (simp add: ulp.simps[of m] zdiv_zmult2_eq)
    then show ?thesis using 1(1)[OF False h] by simp
  qed
qed

lemma ulp_step: "2 ^ 53 \<le> m \<Longrightarrow> ulp m = 2 * ulp (m div 2)"
  by (simp add: ulp.simps[of m])

lemma ulp_large: "2 ^ 53 \<le> m \<Longrightarrow> 2 \<le> ulp m"
  using ulp_pos[of "m div 2"] by (simp add: ulp.simps[of m])

lemma roundToDouble_exact: "\<bar>x\<bar> < 2 ^ 53 \<Longrightarrow> roundToDouble x = Num x"
proof -
  assume a: "\<bar>x\<bar> < 2 ^ 53"
  have b: "\<bar>x\<bar> < (2::int) ^ 1024"
    by (rule less_trans[OF a]) simp
  show ?thesis
    unfolding roundToDouble_def Let_def ulp_small[OF a] using b by auto
qed

lemma roundToDouble_large:
  assumes "2 ^ 53 \<le> \<bar>x\<bar>"
  shows "roundToDouble x = (if x < 0 then NegInfinity else Infinity) \<or>
         (\<exists>k. 2 ^ 53 \<le> k \<and> roundToDouble x = Num (if x < 0 then - k else k))"
proof -
  define u where "u = ulp \<bar>x\<bar>"
  define q where "q = \<bar>x\<bar> div u"
  define k where "k = (if 2 * (\<bar>x\<bar> mod u) < u \<or> (2 * (\<bar>x\<bar> mod u) = u \<and> even q) then q else q + 1) * u"
  have u: "2 \<le> u" unfolding u_def by (rule ulp_large[OF assms])
  have "(2::int) ^ 52 \<le> \<bar>x\<bar>" using assms by simp
  then have q: "2 ^ 52 \<le> q" unfolding q_def u_def by (rule ulp_normal)
  have "2 ^ 52 * 2 \<le> q * u" using q u by (intro mult_mono) simp_all
  moreover have "q * u \<le> k" using u unfolding k_def by (simp add: distrib_right)
  ultimately have k: "2 ^ 53 \<le> k" by simp
  have "roundToDouble x = (if 2 ^ 1024 \<le> k then (if x < 0 then NegInfinity else Infinity)
                           else Num (if x < 0 then - k else k))"
    unfolding roundToDouble_def Let_def k_def q_def u_def by simp
  then show ?thesis using k by auto
qed

lemma limit_clamped:
  "Math_max (Num 1) (Math_min (Num 100) (roundToDouble n)) = Num (max 1 (min 100 n))"
proof (cases "\<bar>n\<bar> < 2 ^ 53")
  case True
  then show ?thesis by (simp add: roundToDouble_exact)
next
  case False
  then have l: "2 ^ 53 \<le> \<bar>n\<bar>" by simp
  show ?thesis
  proof (cases "n < 0")
    case True
    then show ?thesis using roundToDouble_large[OF l] by auto
  next
    case False
    then have "2 ^ 53 \<le> n" using l by simp
    then show ?thesis using roundToDouble_large[OF l] False by auto
  qed
qed

lemma page_clamped:
  "Math_max (Num 0) (roundToDouble n) = Infinity \<or>
   (\<exists>p. Math_max (Num 0) (roundToDouble n) = Num p \<and> 0 \<le> p)"
proof (cases "\<bar>n\<bar> < 2 ^ 53")
  case True
  then show ?thesis by (simp add: roundToDouble_exact)
next
  case False
  then have l: "2 ^ 53 \<le> \<bar>n\<bar>" by simp
  show ?thesis using roundToDouble_large[OF l] by (cases "n < 0") auto
qed

lemma page_exact: "n < 2 ^ 53 \<Longrightarrow> Math_max (Num 0) (roundToDouble n) = Num (max 0 n)"
proof (cases "\<bar>n\<bar> < 2 ^ 53")
  case True
  then show ?thesis by (simp add: roundToDouble_exact)
next
  case False
  assume "n < 2 ^ 53"
  with False have l: "2 ^ 53 \<le> \<bar>n\<bar>" and n: "n < 0" by simp_all
  show ?thesis using roundToDouble_large[OF l] n by auto
qed

lemma roundToDouble_not_NaN: "roundToDouble n \<noteq> NaN"
  by (simp add: roundToDouble_def Let_def)

lemma parseInt_numeral:
  "parseInt (js ''450359962737049'') = Some 450359962737049"
  "parseInt (js ''9007199254740993'') = Some 9007199254740993"
  "parseInt (js ''50'') = Some 50"
  "parseInt (js ''3'') = Some 3"
  "parseInt (js ''500'') = Some 500"
  "parseInt (js ''x'') = None"
  "parseInt (js ''-2'') = Some (- 2)"
  by (simp_all add: parseInt_def js_def trimStart_def isWhiteSpace_def isDigit_def
      decimalValue_def digitVal_def Let_def)

lemma roundToDouble_numeral:
  "roundToDouble 22517998136852450 = Num 22517998136852448"
  "roundToDouble 9007199254740993 = Num 9007199254740992"
  by (simp_all add: roundToDouble_def Let_def ulp_step ulp_small)

text \<open>
  Claim C10, as amended. For every request to the event list, the limit used in the
  query is a whole number between 1 and 100: 20 when the parameter is absent or not a
  number, the clamped number otherwise. The page is at least 0, possibly \<open>Infinity\<close>: 0
  when the parameter is absent or not a number, the parsed number (or 0 if that is
  negative) when it is below \<open>2 ^ 53\<close>, and in general the double nearest to it. The
  query skips the product of page and limit in the arithmetic of doubles, which is
  page times limit whenever that is below \<open>2 ^ 53\<close>.
\<close>

theorem GET_pagination_clamped:
  "(\<exists>l. query_limit (GET lp pp) = Num l \<and> 1 \<le> l \<and> l \<le> 100) \<and>
   (lp = None \<or> (\<exists>s. lp = Some s \<and> parseInt s = None) \<longrightarrow> query_limit (GET lp pp) = Num 20) \<and>
   (\<forall>s n. lp = Some s \<and> parseInt s = Some n \<longrightarrow> query_limit (GET lp pp) = Num (max 1 (min 100 n))) \<and>
   (GET_page pp = Infinity \<or> (\<exists>p. GET_page pp = Num p \<and> 0 \<le> p)) \<and>
   (pp = None \<or> (\<exists>s. pp = Some s \<and> parseInt s = None) \<longrightarrow> GET_page pp = Num 0) \<and>
   (\<forall>s n. pp = Some s \<and> parseInt s = Some n \<and> n < 2 ^ 53 \<longrightarrow> GET_page pp = Num (max 0 n)) \<and>
   (\<forall>s n. pp = Some s \<and> parseInt s = Some n \<longrightarrow> GET_page pp = Math_max (Num 0) (roundToDouble n)) \<and>
   query_skip (GET lp pp) = multiply (GET_page pp) (query_limit (GET lp pp)) \<and>
   (\<forall>p l. GET_page pp = Num p \<and> query_limit (GET lp pp) = Num l \<and> p * l < 2 ^ 53 \<longrightarrow>
      query_skip (GET lp pp) = Num (p * l))"
proof -
  have q: "query_limit (GET lp pp) = GET_limit lp"
    "query_skip (GET lp pp) = multiply (GET_page pp) (GET_limit lp)"
    by (simp_all add: GET_def Let_def)
  have lc: "\<forall>s n. lp = Some s \<and> parseInt s = Some n \<longrightarrow> GET_limit lp = Num (max 1 (min 100 n))"
    by (simp add: GET_limit_def parseIntNumber_def Let_def roundToDouble_not_NaN limit_clamped)
  have ld: "lp = None \<or> (\<exists>s. lp = Some s \<and> parseInt s = None) \<longrightarrow> GET_limit lp = Num 20"
    by (auto simp: GET_limit_def parseIntNumber_def)
  have l: "\<exists>l. GET_limit lp = Num l \<and> 1 \<le> l \<and> l \<le> 100"
  proof (cases "\<exists>s n. lp = Some s \<and> parseInt s = Some n")
    case True
    then obtain s n where "lp = Some s \<and> parseInt s = Some n" by blast
    with lc have "GET_limit lp = Num (max 1 (min 100 n))" by blast
    then show ?thesis by simp
  next
    case False
    then have "lp = None \<or> (\<exists>s. lp = Some s \<and> parseInt s = None)"
      by (cases lp) auto
    with ld show ?thesis by simp
  qed
  have pr: "\<forall>s n. pp = Some s \<and> parseInt s = Some n \<longrightarrow> GET_page pp = Math_max (Num 0) (roundToDouble n)"
    by (simp add: GET_page_def parseIntNumber_def Let_def roundToDouble_not_NaN)
  have pc: "\<forall>s n. pp = Some s \<and> parseInt s = Some n \<and> n < 2 ^ 53 \<longrightarrow> GET_page pp = Num (max 0 n)"
    using pr page_exact by auto
  have pd: "pp = None \<or> (\<exists>s. pp = Some s \<and> parseInt s = None) \<longrightarrow> GET_page pp = Num 0"
    by (auto simp: GET_page_def parseIntNumber_def)
  have p: "GET_page pp = Infinity \<or> (\<exists>p. GET_page pp = Num p \<and> 0 \<le> p)"
  proof (cases "\<exists>s n. pp = Some s \<and> parseInt s = Some n")
    case True
    then obtain s n where "pp = Some s \<and> parseInt s = Some n" by blast
    with pr have "GET_page pp = Math_max (Num 0) (roundToDouble n)" by blast
    then show ?thesis using page_clamped[of n] by simp
  next
    case False
    then have "pp = None \<or> (\<exists>s. pp = Some s \<and> parseInt s = None)"
      by (cases pp) auto
    with pd show ?thesis by simp
  qed
  have e: "\<forall>p l. GET_page pp = Num p \<and> GET_limit lp = Num l \<and> p * l < 2 ^ 53 \<longrightarrow>
      multiply (GET_page pp) (GET_limit lp) = Num (p * l)"
  proof (intro allI impI)
    fix p l assume a: "GET_page pp = Num p \<and> GET_limit lp = Num l \<and> p * l < 2 ^ 53"
    with p l have "0 \<le> p" "0 \<le> l" by auto
    then have "0 \<le> p * l" by simp
    with a have "\<bar>p * l\<bar> < 2 ^ 53" by simp
    then show "multiply (GET_page pp) (GET_limit lp) = Num (p * l)"
      using a by (simp add: multiply_def roundToDouble_exact)
  qed
  show ?thesis unfolding q using l ld lc p pd pc pr e by blast
qed

theorem GET_pagination_clamped_witness:
  "query_limit (GET None (Some (js ''3''))) = Num 20 \<and> GET_page (Some (js ''3'')) = Num 3 \<and>
   query_skip (GET None (Some (js ''3''))) = Num 60 \<and>
   query_limit (GET (Some (js ''500'')) (Some (js ''x''))) = Num 100 \<and>
   query_skip (GET (Some (js ''500'')) (Some (js ''x''))) = Num 0"
proof -
  note a = GET_pagination_clamped[of None "Some (js ''3'')"]
  note b = GET_pagination_clamped[of "Some (js ''500'')" "Some (js ''x'')"]
  have n: "parseInt (js ''3'') = Some 3 \<and> (3::int) < 2 ^ 53" "parseInt (js ''500'') = Some 500"
    "parseInt (js ''x'') = None"
    by (simp_all add: parseInt_numeral)
  from a have a1: "query_limit (GET None (Some (js ''3''))) = Num 20" by blast
  from a n(1) have a2: "GET_page (Some (js ''3'')) = Num (max 0 3)" by blast
  from a have "GET_page (Some (js ''3'')) = Num 3 \<and> query_limit (GET None (Some (js ''3''))) = Num 20 \<and>
      3 * 20 < (2::int) ^ 53 \<longrightarrow> query_skip (GET None (Some (js ''3''))) = Num (3 * 20)"
    by blast
  with a1 a2 have a3: "query_skip (GET None (Some (js ''3''))) = Num (3 * 20)" by simp
  from b n(2) have b1: "query_limit (GET (Some (js ''500'')) (Some (js ''x''))) = Num (max 1 (min 100 500))"
    by blast
  from b n(3) have b2: "GET_page (Some (js ''x'')) = Num 0" by blast
  from b have "GET_page (Some (js ''x'')) = Num 0 \<and>
      query_limit (GET (Some (js ''500'')) (Some (js ''x''))) = Num 100 \<and>
      0 * 100 < (2::int) ^ 53 \<longrightarrow> query_skip (GET (Some (js ''500'')) (Some (js ''x''))) = Num (0 * 100)"
    by blast
  with b1 b2 have b3: "query_skip (GET (Some (js ''500'')) (Some (js ''x''))) = Num (0 * 100)" by simp
  from a1 a2 a3 b1 b3 show ?thesis by simp
qed

text \<open>
  The claim as first stated fails from \<open>2 ^ 53\<close> on: with limit 50 and page
  450359962737049 the query skips 22517998136852448 records, two fewer than page
  times limit; and the page parameter 9007199254740993 gives the page 9007199254740992.
\<close>

theorem skip_rounded_counterexample:
  "GET_page (Some (js ''450359962737049'')) = Num 450359962737049 \<and>
   query_limit (GET (Some (js ''50'')) (Some (js ''450359962737049''))) = Num 50 \<and>
   query_skip (GET (Some (js ''50'')) (Some (js ''450359962737049''))) = Num 22517998136852448 \<and>
   450359962737049 * 50 \<noteq> (22517998136852448::int) \<and>
   parseInt (js ''9007199254740993'') = Some 9007199254740993 \<and>
   GET_page (Some (js ''9007199254740993'')) = Num 9007199254740992"
proof -
  have a: "roundToDouble 450359962737049 = Num 450359962737049" "roundToDouble 50 = Num 50"
    by (simp_all add: roundToDouble_exact)
  show ?thesis
    by (simp add: GET_def GET_page_def GET_limit_def parseIntNumber_def Let_def parseInt_numeral a
        multiply_def roundToDouble_numeral)
qed

section \<open>The pass and its outcomes\<close>

lemma put_Inl: "put (es, m) (f, Inl e) = (es @ [e], m)"
  by (simp add: put_def)

lemma put_Inr: "put (es, m) (f, Inr v) = (es, m(f \<mapsto> v))"
  by (simp add: put_def)

lemma errorsOf_simps:
  "errorsOf [] = []"
  "errorsOf ((f, Inl e) # frs) = e # errorsOf frs"
  "errorsOf ((f, Inr v) # frs) = errorsOf frs"
  "errorsOf (xs @ ys) = errorsOf xs @ errorsOf ys"
  by (simp_all add: errorsOf_def)

lemma valuesOf_simps:
  "valuesOf [] = []"
  "valuesOf ((f, Inl e) # frs) = valuesOf frs"
  "valuesOf ((f, Inr v) # frs) = (f, v) # valuesOf frs"
  "valuesOf (xs @ ys) = valuesOf xs @ valuesOf ys"
  by (simp_all add: valuesOf_def)

lemma put_foldl:
  "foldl put (es, m) frs = (es @ errorsOf frs, m ++ map_of (rev (valuesOf frs)))"
proof (induction frs arbitrary: es m)
  case Nil
  then show ?case by (simp add: errorsOf_simps valuesOf_simps)
next
  case (Cons fr frs)
  obtain f r where fr: "fr = (f, r)" by (cases fr)
  show ?case
  proof (cases r)
    case (Inl e)
    show ?thesis
      unfolding fr Inl foldl_Cons put_Inl Cons errorsOf_simps valuesOf_simps by simp
  next
    case (Inr v)
    have "m(f \<mapsto> v) ++ map_of (rev (valuesOf frs)) = m ++ map_of (rev (valuesOf frs) @ [(f, v)])"
      by (rule ext) (simp add: map_add_def split: option.splits)
    then show ?thesis
      unfolding fr Inr foldl_Cons put_Inr Cons errorsOf_simps valuesOf_simps by simp
  qed
qed

lemma textField_put: "textField raw st fm = put st (textOutcome raw fm)"
  by (cases st; cases fm)
     (simp add: textField_def put_def textOutcome_def Let_def split: option.splits FormDataEntryValue.splits)

lemma dateField_put: "dateField P raw st = put st (js ''date'', dateOutcome P raw)"
  by (cases st)
     (simp add: dateField_def put_def dateOutcome_def split: option.splits FormDataEntryValue.splits)

lemma timeField_put: "timeField raw st = put st (js ''time'', timeOutcome raw)"
  by (cases st)
     (simp add: timeField_def put_def timeOutcome_def split: option.splits FormDataEntryValue.splits)

lemma modeField_put: "modeField raw st = put st (js ''mode'', modeOutcome raw)"
  by (cases st)
     (simp add: modeField_def put_def modeOutcome_def rawModeOf_def Let_def)

lemma arrayField_put: "arrayField f raw st = put st (f, arrayOutcome f raw)"
  by (cases st)
     (simp add: arrayField_def put_def arrayOutcome_def arrayOf_def Let_def split: option.splits)

lemma imageField_put: "imageField P raw st = put st (js ''image'', imageOutcome P raw)"
  by (cases st)
     (simp add: imageField_def put_def imageOutcome_def Let_def split: option.splits)

lemma foldl_textField: "foldl (textField raw) st fms = foldl put st (map (textOutcome raw) fms)"
  by (induction fms arbitrary: st) (simp_all add: textField_put)

lemma validateFields_outcomes:
  "validateFields P raw = foldl put ([], Map.empty) (fieldOutcomes P raw)"
  by (simp add: validateFields_def fieldOutcomes_def foldl_textField dateField_put timeField_put
      modeField_put arrayField_put imageField_put)

lemma validateFields_eq:
  "validateFields P raw =
     (errorsOf (fieldOutcomes P raw), map_of (rev (valuesOf (fieldOutcomes P raw))))"
  by (simp add: validateFields_outcomes put_foldl)

lemma fieldNames_distinct: "distinct (map fst (fieldOutcomes P raw))"
  by (simp add: fieldOutcomes_def TEXT_FIELD_LIMITS_def textOutcome_def js_def)

lemma valuesOf_set: "(k, v) \<in> set (valuesOf frs) \<longleftrightarrow> (k, Inr v) \<in> set frs"
proof (induction frs)
  case Nil
  show ?case by (simp add: valuesOf_simps)
next
  case (Cons fr frs)
  obtain f r where fr: "fr = (f, r)" by (cases fr)
  show ?case using Cons by (cases r) (auto simp: fr valuesOf_simps)
qed

lemma valuesOf_fst: "map fst (valuesOf frs) = map fst (filter (\<lambda>fr. \<not> isl (snd fr)) frs)"
proof (induction frs)
  case Nil
  show ?case by (simp add: valuesOf_simps)
next
  case (Cons fr frs)
  obtain f r where fr: "fr = (f, r)" by (cases fr)
  show ?case using Cons by (cases r) (auto simp: fr valuesOf_simps)
qed

lemma valuesOf_distinct: "distinct (map fst frs) \<Longrightarrow> distinct (map fst (valuesOf frs))"
  by (simp add: valuesOf_fst distinct_map_filter)

lemma lookup_values:
  assumes "distinct (map fst frs)"
  shows "map_of (rev (valuesOf frs)) k = Some v \<longleftrightarrow> (k, Inr v) \<in> set frs"
proof -
  have d: "distinct (map fst (rev (valuesOf frs)))"
    using valuesOf_distinct[OF assms] by (simp add: rev_map[symmetric])
  have "map_of (rev (valuesOf frs)) k = Some v \<longleftrightarrow> (k, v) \<in> set (rev (valuesOf frs))"
    using d by (metis map_of_SomeD map_of_is_SomeI)
  then show ?thesis by (simp add: valuesOf_set)
qed

lemma sanitized_lookup:
  "snd (validateFields P raw) k = Some v \<longleftrightarrow> (k, Inr v) \<in> set (fieldOutcomes P raw)"
  by (simp add: validateFields_eq lookup_values[OF fieldNames_distinct])

lemma errorsOf_set: "e \<in> set (errorsOf frs) \<longleftrightarrow> (\<exists>f. (f, Inl e) \<in> set frs)"
proof (induction frs)
  case Nil
  show ?case by (simp add: errorsOf_simps)
next
  case (Cons fr frs)
  obtain f r where fr: "fr = (f, r)" by (cases fr)
  show ?case using Cons by (cases r) (auto simp: fr errorsOf_simps)
qed

lemma errors_member:
  "e \<in> set (fst (validateFields P raw)) \<longleftrightarrow> (\<exists>f. (f, Inl e) \<in> set (fieldOutcomes P raw))"
  by (simp add: validateFields_eq errorsOf_set)

lemma no_errors_value:
  assumes "fst (validateFields P raw) = []" "(f, r) \<in> set (fieldOutcomes P raw)"
  shows "\<exists>v. r = Inr v \<and> snd (validateFields P raw) f = Some v"
proof (cases r)
  case (Inl e)
  with assms(2) have "e \<in> set (fst (validateFields P raw))" unfolding errors_member by blast
  with assms(1) show ?thesis by simp
next
  case (Inr v)
  with assms(2) show ?thesis by (simp add: sanitized_lookup)
qed

lemma text_in_outcomes:
  "fm \<in> set TEXT_FIELD_LIMITS \<Longrightarrow> textOutcome raw fm \<in> set (fieldOutcomes P raw)"
  by (simp add: fieldOutcomes_def)

lemma other_in_outcomes:
  "(js ''date'', dateOutcome P raw) \<in> set (fieldOutcomes P raw)"
  "(js ''time'', timeOutcome raw) \<in> set (fieldOutcomes P raw)"
  "(js ''mode'', modeOutcome raw) \<in> set (fieldOutcomes P raw)"
  "(js ''agenda'', arrayOutcome (js ''agenda'') raw) \<in> set (fieldOutcomes P raw)"
  "(js ''tags'', arrayOutcome (js ''tags'') raw) \<in> set (fieldOutcomes P raw)"
  "(js ''image'', imageOutcome P raw) \<in> set (fieldOutcomes P raw)"
  by (simp_all add: fieldOutcomes_def)

lemma textOutcome_cases:
  "textOutcome raw (f, n) =
     (f, case raw f of
           Some (Str v) \<Rightarrow> if sanitizePlainText v n = [] then Inl (f @ js '' cannot be empty'')
                           else Inr (JStr (sanitizePlainText v n))
         | _ \<Rightarrow> Inl (f @ js '' is required''))"
  by (simp add: textOutcome_def)

lemma text_value:
  assumes "fst (validateFields P raw) = []" "(f, n) \<in> set TEXT_FIELD_LIMITS"
  shows "\<exists>v. raw f = Some (Str v) \<and> sanitizePlainText v n \<noteq> [] \<and>
             snd (validateFields P raw) f = Some (JStr (sanitizePlainText v n))"
proof -
  from no_errors_value[OF assms(1) text_in_outcomes[OF assms(2), of raw P, unfolded textOutcome_cases]]
  show ?thesis
    by (auto split: option.splits FormDataEntryValue.splits if_splits)
qed

lemma date_value:
  assumes "fst (validateFields P raw) = []"
  shows "\<exists>v d. raw (js ''date'') = Some (Str v) \<and> normalizeDate P v = Some d \<and> d \<noteq> [] \<and>
             snd (validateFields P raw) (js ''date'') = Some (JStr d)"
  using no_errors_value[OF assms other_in_outcomes(1)]
  by (auto simp: dateOutcome_def split: option.splits FormDataEntryValue.splits if_splits)

lemma time_value:
  assumes "fst (validateFields P raw) = []"
  shows "\<exists>v t. raw (js ''time'') = Some (Str v) \<and> normalizeTime v = Some t \<and> t \<noteq> [] \<and>
             snd (validateFields P raw) (js ''time'') = Some (JStr t)"
  using no_errors_value[OF assms other_in_outcomes(2)]
  by (auto simp: timeOutcome_def split: option.splits FormDataEntryValue.splits if_splits)

lemma mode_value:
  assumes "fst (validateFields P raw) = []"
  shows "rawModeOf raw \<in> set ALLOWED_MODES \<and>
         snd (validateFields P raw) (js ''mode'') = Some (JStr (rawModeOf raw))"
  using no_errors_value[OF assms other_in_outcomes(3)]
  by (auto simp: modeOutcome_def split: if_splits)

lemma array_value:
  assumes "fst (validateFields P raw) = []" "f = js ''agenda'' \<or> f = js ''tags''"
  shows "\<exists>xs. arrayOf f raw = Some xs \<and> snd (validateFields P raw) f = Some (JArr (map JStr xs))"
  using assms(2) no_errors_value[OF assms(1) other_in_outcomes(4)]
    no_errors_value[OF assms(1) other_in_outcomes(5)]
  by (auto simp: arrayOutcome_def split: option.splits)

lemma image_value:
  assumes "fst (validateFields P raw) = []"
  shows "\<exists>u. ensureSecureImageUrl P (stringOrEmpty (raw (js ''image''))) = Some u \<and> u \<noteq> [] \<and>
             snd (validateFields P raw) (js ''image'') = Some (JStr u)"
  using no_errors_value[OF assms other_in_outcomes(6)]
  by (auto simp: imageOutcome_def split: option.splits if_splits)

lemma no_errors_isSanitizedEvent:
  assumes "fst (validateFields P raw) = []"
  shows "isSanitizedEvent (snd (validateFields P raw))"
proof -
  have t: "isString (snd (validateFields P raw) f)" if "(f, n) \<in> set TEXT_FIELD_LIMITS" for f n
    using text_value[OF assms that] by (auto simp: isString_def)
  have "list_all (\<lambda>f. isString (snd (validateFields P raw) f)) (map fst TEXT_FIELD_LIMITS)"
    unfolding list_all_iff using t by auto
  moreover have "isString (snd (validateFields P raw) (js ''date''))"
    using date_value[OF assms] by (auto simp: isString_def)
  moreover have "isString (snd (validateFields P raw) (js ''time''))"
    using time_value[OF assms] by (auto simp: isString_def)
  moreover have "isString (snd (validateFields P raw) (js ''image''))"
    using image_value[OF assms] by (auto simp: isString_def)
  moreover have "isStringArray (snd (validateFields P raw) (js ''agenda''))"
    using array_value[OF assms, of "js ''agenda''"] by (auto simp: isStringArray_def list_all_iff)
  moreover have "isStringArray (snd (validateFields P raw) (js ''tags''))"
    using array_value[OF assms, of "js ''tags''"] by (auto simp: isStringArray_def list_all_iff)
  ultimately show ?thesis
    using mode_value[OF assms] by (simp add: isSanitizedEvent_def stringFields_def)
qed

text \<open>
  Claim C1. For every raw submission, \<open>validateAndSanitizeEvent\<close> returns either an
  empty error list together with a complete \<open>SanitizedEvent\<close>, or a non-empty error
  list and no record; never both, never neither.
\<close>

theorem validate_record_or_errors:
  "case validateAndSanitizeEvent P raw of
     (errors, sanitizedEvent) \<Rightarrow>
       (errors = [] \<and> (\<exists>ev. sanitizedEvent = Some ev \<and> isSanitizedEvent ev)) \<or>
       (errors \<noteq> [] \<and> sanitizedEvent = None)"
proof -
  obtain errors sanitized where v: "validateFields P raw = (errors, sanitized)"
    by (cases "validateFields P raw")
  show ?thesis
  proof (cases "errors = []")
    case True
    with v no_errors_isSanitizedEvent[of P raw] show ?thesis
      by (simp add: validateAndSanitizeEvent_def)
  next
    case False
    with v show ?thesis
      by (simp add: validateAndSanitizeEvent_def)
  qed
qed

lemma sample_no_errors: "fst (validateAndSanitizeEvent sampleHost sampleRaw) = []"
  by code_simp

theorem validate_record_or_errors_witness:
  "fst (validateAndSanitizeEvent sampleHost sampleRaw) = [] \<and>
   (\<exists>ev. snd (validateAndSanitizeEvent sampleHost sampleRaw) = Some ev \<and> isSanitizedEvent ev)"
  using validate_record_or_errors[of sampleHost sampleRaw] sample_no_errors
  by (cases "validateAndSanitizeEvent sampleHost sampleRaw") auto

lemma count_errorsOf:
  "count_list (errorsOf frs) e = length (filter (\<lambda>fr. snd fr = Inl e) frs)"
proof (induction frs)
  case Nil
  show ?case by (simp add: errorsOf_simps)
next
  case (Cons fr frs)
  obtain f r where fr: "fr = (f, r)" by (cases fr)
  show ?case using Cons by (cases r) (auto simp: fr errorsOf_simps)
qed

lemma textOutcome_Inl:
  "snd (textOutcome raw (g, n)) = Inl e \<longleftrightarrow>
     (\<not> isStringEntry (raw g) \<and> e = g @ js '' is required'') \<or>
     (\<exists>v. raw g = Some (Str v) \<and> sanitizePlainText v n = [] \<and> e = g @ js '' cannot be empty'')"
  by (auto simp: textOutcome_def isStringEntry_def split: option.splits FormDataEntryValue.splits)

lemma dateOutcome_Inl:
  "dateOutcome P raw = Inl e \<longleftrightarrow>
     (\<not> isStringEntry (raw (js ''date'')) \<and> e = js ''date is required'') \<or>
     (\<exists>v. raw (js ''date'') = Some (Str v) \<and> (normalizeDate P v = None \<or> normalizeDate P v = Some []) \<and>
          e = js ''date must be a valid date'')"
  by (auto simp: dateOutcome_def isStringEntry_def split: option.splits FormDataEntryValue.splits)

lemma timeOutcome_Inl:
  "timeOutcome raw = Inl e \<longleftrightarrow>
     (\<not> isStringEntry (raw (js ''time'')) \<and> e = js ''time is required'') \<or>
     (\<exists>v. raw (js ''time'') = Some (Str v) \<and> (normalizeTime v = None \<or> normalizeTime v = Some []) \<and>
          e = js ''time must be in HH:MM or HH:MM AM/PM format'')"
  by (auto simp: timeOutcome_def isStringEntry_def split: option.splits FormDataEntryValue.splits)

lemma modeMessage: "js ''mode must be one of: '' @ join (js '', '') ALLOWED_MODES = formatMessage (js ''mode'')"
  by (simp add: ALLOWED_MODES_def formatMessage_def js_def)

lemma modeOutcome_Inl:
  "modeOutcome raw = Inl e \<longleftrightarrow> rawModeOf raw \<notin> set ALLOWED_MODES \<and> e = formatMessage (js ''mode'')"
  unfolding modeOutcome_def modeMessage by auto

lemma arrayOutcome_Inl:
  "arrayOutcome f raw = Inl e \<longleftrightarrow>
     arrayOf f raw = None \<and> e = f @ js '' must be an array of strings with at least one item''"
  by (auto simp: arrayOutcome_def split: option.splits)

lemma imageOutcome_Inl:
  "imageOutcome P raw = Inl e \<longleftrightarrow>
     (ensureSecureImageUrl P (stringOrEmpty (raw (js ''image''))) = None \<or>
      ensureSecureImageUrl P (stringOrEmpty (raw (js ''image''))) = Some []) \<and>
     e = js ''image must be a valid HTTPS URL''"
  by (auto simp: imageOutcome_def split: option.splits)

lemmas outcome_Inl = textOutcome_Inl dateOutcome_Inl timeOutcome_Inl modeOutcome_Inl
  arrayOutcome_Inl imageOutcome_Inl

lemma count_errors:
  "count_list (fst (validateFields P raw)) e =
     length (filter (\<lambda>fr. snd fr = Inl e) (fieldOutcomes P raw))"
  by (simp add: validateFields_eq count_errorsOf)

lemma required_count:
  assumes "f \<in> set requiredFields"
  shows "count_list (fst (validateFields P raw)) (f @ js '' is required'') =
           (if isStringEntry (raw f) then 0 else 1)"
proof -
  from assms consider "f = js ''title''" | "f = js ''description''" | "f = js ''overview''"
    | "f = js ''venue''" | "f = js ''location''" | "f = js ''audience''" | "f = js ''organizer''"
    | "f = js ''date''" | "f = js ''time''"
    by (auto simp: requiredFields_def TEXT_FIELD_LIMITS_def)
  then show ?thesis
    by cases
      (simp_all add: count_errors fieldOutcomes_def TEXT_FIELD_LIMITS_def outcome_Inl
        formatMessage_def js_def)
qed

section \<open>Changing one field of a submission\<close>

lemma outcome_unique:
  assumes "(f, r) \<in> set (fieldOutcomes P raw)" "(f, r') \<in> set (fieldOutcomes P raw)"
  shows "r = r'"
  using eq_key_imp_eq_value[OF fieldNames_distinct assms] .

lemma error_unset:
  assumes "(f, Inl e) \<in> set (fieldOutcomes P raw)"
  shows "snd (validateFields P raw) f = None"
proof (cases "snd (validateFields P raw) f")
  case None
  then show ?thesis .
next
  case (Some v)
  then have "(f, Inr v) \<in> set (fieldOutcomes P raw)" by (simp add: sanitized_lookup)
  from outcome_unique[OF assms this] show ?thesis by simp
qed

lemma validate_fst: "fst (validateAndSanitizeEvent P raw) = fst (validateFields P raw)"
  by (cases "validateFields P raw") (simp add: validateAndSanitizeEvent_def)

lemma validate_snd_None:
  "fst (validateFields P raw) \<noteq> [] \<Longrightarrow> snd (validateAndSanitizeEvent P raw) = None"
  by (cases "validateFields P raw") (simp add: validateAndSanitizeEvent_def)

lemma validate_snd_Some:
  "validateAndSanitizeEvent P raw = ([], Some ev) \<Longrightarrow>
     fst (validateFields P raw) = [] \<and> snd (validateFields P raw) = ev"
  by (cases "validateFields P raw") (auto simp add: validateAndSanitizeEvent_def split: if_splits)

lemma textOutcome_frame: "f \<noteq> k \<Longrightarrow> textOutcome (raw(k := x)) (f, n) = textOutcome raw (f, n)"
  by (simp add: textOutcome_def)

lemma textOutcome_fst: "fst (textOutcome raw fm) = fst fm"
  by (cases fm) (simp add: textOutcome_def)

lemma other_frame:
  "js ''date'' \<noteq> k \<Longrightarrow> dateOutcome P (raw(k := x)) = dateOutcome P raw"
  "js ''time'' \<noteq> k \<Longrightarrow> timeOutcome (raw(k := x)) = timeOutcome raw"
  "js ''mode'' \<noteq> k \<Longrightarrow> modeOutcome (raw(k := x)) = modeOutcome raw"
  "f \<noteq> k \<Longrightarrow> arrayOutcome f (raw(k := x)) = arrayOutcome f raw"
  "js ''image'' \<noteq> k \<Longrightarrow> imageOutcome P (raw(k := x)) = imageOutcome P raw"
  by (simp_all add: dateOutcome_def timeOutcome_def modeOutcome_def rawModeOf_def arrayOutcome_def
      arrayOf_def imageOutcome_def)

lemma text_frame:
  assumes "g \<noteq> k"
  shows "(g, r) \<in> textOutcome (raw(k := x)) ` A \<longleftrightarrow> (g, r) \<in> textOutcome raw ` A"
proof
  assume "(g, r) \<in> textOutcome (raw(k := x)) ` A"
  then obtain fm where fm: "fm \<in> A" "(g, r) = textOutcome (raw(k := x)) fm" by blast
  obtain f n where fn: "fm = (f, n)" by (cases fm)
  from fm(2) have "g = f" using textOutcome_fst[of "raw(k := x)" fm] by (metis fn fst_conv)
  with assms fm(2) have "(g, r) = textOutcome raw fm" by (simp add: fn textOutcome_frame)
  with fm(1) show "(g, r) \<in> textOutcome raw ` A" by blast
next
  assume "(g, r) \<in> textOutcome raw ` A"
  then obtain fm where fm: "fm \<in> A" "(g, r) = textOutcome raw fm" by blast
  obtain f n where fn: "fm = (f, n)" by (cases fm)
  from fm(2) have "g = f" using textOutcome_fst[of raw fm] by (metis fn fst_conv)
  with assms fm(2) have "(g, r) = textOutcome (raw(k := x)) fm" by (simp add: fn textOutcome_frame)
  with fm(1) show "(g, r) \<in> textOutcome (raw(k := x)) ` A" by blast
qed

lemma frame_conj:
  assumes "g \<noteq> k" "a \<noteq> k \<Longrightarrow> u = v"
  shows "(g, r) = (a, u) \<longleftrightarrow> (g, r) = (a, v)"
  using assms by auto

lemma outcomes_frame:
  assumes "g \<noteq> k"
  shows "(g, r) \<in> set (fieldOutcomes P (raw(k := x))) \<longleftrightarrow> (g, r) \<in> set (fieldOutcomes P raw)"
proof -
  have 1: "(g, r) = (js ''date'', dateOutcome P (raw(k := x))) \<longleftrightarrow>
           (g, r) = (js ''date'', dateOutcome P raw)"
    by (rule frame_conj[OF assms other_frame(1)])
  have 2: "(g, r) = (js ''time'', timeOutcome (raw(k := x))) \<longleftrightarrow>
           (g, r) = (js ''time'', timeOutcome raw)"
    by (rule frame_conj[OF assms other_frame(2)])
  have 3: "(g, r) = (js ''mode'', modeOutcome (raw(k := x))) \<longleftrightarrow>
           (g, r) = (js ''mode'', modeOutcome raw)"
    by (rule frame_conj[OF assms other_frame(3)])
  have 4: "(g, r) = (f, arrayOutcome f (raw(k := x))) \<longleftrightarrow> (g, r) = (f, arrayOutcome f raw)" for f
    by (rule frame_conj[OF assms other_frame(4)])
  have 5: "(g, r) = (js ''image'', imageOutcome P (raw(k := x))) \<longleftrightarrow>
           (g, r) = (js ''image'', imageOutcome P raw)"
    by (rule frame_conj[OF assms other_frame(5)])
  show ?thesis
    unfolding fieldOutcomes_def set_append set_map Un_iff list.set insert_iff empty_iff
      text_frame[OF assms] 1 2 3 4 5 ..
qed

lemma update_valid:
  assumes "fst (validateFields P raw) = []" "(k, Inr v) \<in> set (fieldOutcomes P (raw(k := x)))"
  shows "fst (validateFields P (raw(k := x))) = []"
    and "snd (validateFields P (raw(k := x))) k = Some v"
proof -
  show "snd (validateFields P (raw(k := x))) k = Some v"
    using assms(2) by (simp add: sanitized_lookup)
  show "fst (validateFields P (raw(k := x))) = []"
  proof (rule ccontr)
    assume "fst (validateFields P (raw(k := x))) \<noteq> []"
    then obtain e where "e \<in> set (fst (validateFields P (raw(k := x))))"
      by (cases "fst (validateFields P (raw(k := x)))") auto
    then obtain g where g: "(g, Inl e) \<in> set (fieldOutcomes P (raw(k := x)))"
      unfolding errors_member by blast
    show False
    proof (cases "g = k")
      case True
      with g outcome_unique[OF assms(2)] show False by auto
    next
      case False
      with g have "(g, Inl e) \<in> set (fieldOutcomes P raw)" by (simp add: outcomes_frame)
      then have "e \<in> set (fst (validateFields P raw))" unfolding errors_member by blast
      with assms(1) show False by simp
    qed
  qed
qed

lemma errorsOf_single:
  assumes "distinct (map fst frs)" "(k, Inl e) \<in> set frs"
    "\<And>g r. (g, r) \<in> set frs \<Longrightarrow> g \<noteq> k \<Longrightarrow> \<not> isl r"
  shows "errorsOf frs = [e]"
  using assms
proof (induction frs)
  case Nil
  then show ?case by simp
next
  case (Cons fr frs)
  obtain f r where fr: "fr = (f, r)" by (cases fr)
  show ?case
  proof (cases "f = k")
    case True
    have "(k, Inl e) \<notin> set frs"
      using Cons.prems(1) True by (force simp: fr)
    with Cons.prems(2) True have r: "r = Inl e" by (simp add: fr)
    have "errorsOf frs = []"
    proof (rule ccontr)
      assume "errorsOf frs \<noteq> []"
      then obtain e' where "e' \<in> set (errorsOf frs)" by (cases "errorsOf frs") auto
      then obtain g where g: "(g, Inl e') \<in> set frs" unfolding errorsOf_set by blast
      with Cons.prems(1) True have "g \<noteq> k" by (force simp: fr)
      with Cons.prems(3)[of g "Inl e'"] g show False by simp
    qed
    then show ?thesis by (simp add: fr r errorsOf_simps)
  next
    case False
    with Cons.prems(3)[of f r] obtain v where r: "r = Inr v" by (cases r) (auto simp: fr)
    from Cons.prems(2) False have m: "(k, Inl e) \<in> set frs" by (simp add: fr)
    have d: "distinct (map fst frs)" using Cons.prems(1) by simp
    have "errorsOf frs = [e]"
    proof (rule Cons.IH[OF d m])
      fix g r assume "(g, r) \<in> set frs" "g \<noteq> k"
      then show "\<not> isl r" using Cons.prems(3)[of g r] by simp
    qed
    then show ?thesis by (simp add: fr r errorsOf_simps)
  qed
qed

lemma update_invalid:
  assumes "fst (validateFields P raw) = []" "(k, Inl e) \<in> set (fieldOutcomes P (raw(k := x)))"
  shows "fst (validateFields P (raw(k := x))) = [e]"
proof -
  have "\<not> isl r" if "(g, r) \<in> set (fieldOutcomes P (raw(k := x)))" "g \<noteq> k" for g r
  proof
    assume "isl r"
    then obtain e' where "r = Inl e'" by (cases r) auto
    with that have "(g, Inl e') \<in> set (fieldOutcomes P raw)" by (simp add: outcomes_frame)
    then have "e' \<in> set (fst (validateFields P raw))" unfolding errors_member by blast
    with assms(1) show False by simp
  qed
  from errorsOf_single[OF fieldNames_distinct assms(2) this]
  show ?thesis by (simp add: validateFields_eq)
qed

lemma sample_valid: "fst (validateFields sampleHost sampleRaw) = []"
  using sample_no_errors by (simp add: validate_fst)

lemma validate_result:
  "fst (validateFields P raw) = [] \<Longrightarrow>
     validateAndSanitizeEvent P raw = ([], Some (snd (validateFields P raw)))"
  by (cases "validateFields P raw") (simp add: validateAndSanitizeEvent_def)

lemma sample_lookups:
  "sampleRaw (js ''title'') = Some (Str (js ''  <b>Hi</b>  ''))"
  "sampleRaw (js ''date'') = Some (Str (js ''2024-03-15''))"
  "sampleRaw (js ''time'') = Some (Str (js ''2:30 PM''))"
  "sampleRaw (js ''mode'') = Some (Str (js '' Online ''))"
  "sampleRaw (js ''tags'') = Some (Str (js ''[\"<b>AI</b>\",\"Cloud\"]''))"
  by (simp_all add: sampleRaw_def fromEntries_def sampleEntries_def js_def)

lemma empty_count:
  assumes "(f, n) \<in> set TEXT_FIELD_LIMITS"
  shows "count_list (fst (validateFields P raw)) (f @ js '' cannot be empty'') =
           (case raw f of Some (Str v) \<Rightarrow> if sanitizePlainText v n = [] then 1 else 0 | _ \<Rightarrow> 0)"
proof -
  from assms consider "f = js ''title''" "n = 100" | "f = js ''description''" "n = 1000"
    | "f = js ''overview''" "n = 500"
    | "f = js ''venue''" "n = 100" | "f = js ''location''" "n = 150" | "f = js ''audience''" "n = 150"
    | "f = js ''organizer''" "n = 150"
    by (auto simp: TEXT_FIELD_LIMITS_def)
  then show ?thesis
    by cases
      (simp_all add: count_errors fieldOutcomes_def TEXT_FIELD_LIMITS_def outcome_Inl
        formatMessage_def js_def isStringEntry_def split: option.splits FormDataEntryValue.splits)
qed

lemma format_count:
  assumes "f \<in> set formatFields"
  shows "count_list (fst (validateFields P raw)) (f @ js '' is required'') = 0"
proof -
  from assms consider "f = js ''mode''" | "f = js ''agenda''" | "f = js ''tags''" | "f = js ''image''"
    by (auto simp: formatFields_def)
  then show ?thesis
    by cases
      (simp_all add: count_errors fieldOutcomes_def TEXT_FIELD_LIMITS_def outcome_Inl
        formatMessage_def js_def)
qed

lemma missing_format_error:
  assumes "f \<in> set formatFields" "\<not> isStringEntry (raw f)" "f = js ''image'' \<longrightarrow> newURL P [] = None"
  shows "(f, Inl (formatMessage f)) \<in> set (fieldOutcomes P raw)"
proof -
  from assms(2) have se: "stringOrEmpty (raw f) = []"
    by (auto simp: isStringEntry_def stringOrEmpty_def split: option.splits FormDataEntryValue.splits)
  from assms(1) consider "f = js ''mode''" | "f = js ''agenda''" | "f = js ''tags''" | "f = js ''image''"
    by (auto simp: formatFields_def)
  then show ?thesis
  proof cases
    case 1
    from assms(2) have "rawModeOf raw = []"
      by (auto simp: 1 rawModeOf_def isStringEntry_def split: option.splits FormDataEntryValue.splits)
    then have "modeOutcome raw = Inl (formatMessage (js ''mode''))"
      unfolding modeOutcome_Inl by (simp add: ALLOWED_MODES_def js_def)
    with other_in_outcomes(3)[of raw P] show ?thesis by (simp add: 1)
  next
    case 2
    have "arrayOutcome f raw = Inl (formatMessage f)"
      unfolding arrayOutcome_Inl using se by (simp add: arrayOf_def formatMessage_def 2 js_def)
    with other_in_outcomes(4)[of raw P] show ?thesis by (simp add: 2)
  next
    case 3
    have "arrayOutcome f raw = Inl (formatMessage f)"
      unfolding arrayOutcome_Inl using se by (simp add: arrayOf_def formatMessage_def 3 js_def)
    with other_in_outcomes(5)[of raw P] show ?thesis by (simp add: 3)
  next
    case 4
    with assms(3) se have "ensureSecureImageUrl P (stringOrEmpty (raw (js ''image''))) = None"
      by (simp add: ensureSecureImageUrl_def)
    then have "imageOutcome P raw = Inl (formatMessage f)"
      unfolding imageOutcome_Inl by (simp add: formatMessage_def 4 js_def)
    with other_in_outcomes(6)[of P raw] show ?thesis by (simp add: 4)
  qed
qed

lemma count_pos_nonempty: "count_list xs e = 1 \<Longrightarrow> xs \<noteq> []"
  by auto

text \<open>
  Claim C7, as amended. When one of the seven text fields, \<open>date\<close> or \<open>time\<close> is not a
  string, the error list contains its \<open>is required\<close> message exactly once, and not at
  all when the field is a string. For \<open>mode\<close>, \<open>agenda\<close>, \<open>tags\<close> and \<open>image\<close> no
  \<open>is required\<close> message exists: a missing one is reported by the field's format
  message (for \<open>image\<close>: on a host whose URL parser rejects the empty string, as every
  URL parser does). In each of these cases no record is returned.
\<close>

theorem missing_field_reported:
  "(f \<in> set requiredFields \<longrightarrow>
      count_list (fst (validateAndSanitizeEvent P raw)) (f @ js '' is required'') =
        (if isStringEntry (raw f) then 0 else 1)) \<and>
   (f \<in> set formatFields \<longrightarrow>
      count_list (fst (validateAndSanitizeEvent P raw)) (f @ js '' is required'') = 0) \<and>
   (f \<in> set formatFields \<and> \<not> isStringEntry (raw f) \<and> (f = js ''image'' \<longrightarrow> newURL P [] = None) \<longrightarrow>
      formatMessage f \<in> set (fst (validateAndSanitizeEvent P raw))) \<and>
   (f \<in> set requiredFields \<union> set formatFields \<and> \<not> isStringEntry (raw f) \<and>
    (f = js ''image'' \<longrightarrow> newURL P [] = None) \<longrightarrow>
      snd (validateAndSanitizeEvent P raw) = None)"
proof (intro conjI impI)
  assume "f \<in> set requiredFields"
  then show "count_list (fst (validateAndSanitizeEvent P raw)) (f @ js '' is required'') =
        (if isStringEntry (raw f) then 0 else 1)"
    unfolding validate_fst by (rule required_count)
next
  assume "f \<in> set formatFields"
  then show "count_list (fst (validateAndSanitizeEvent P raw)) (f @ js '' is required'') = 0"
    unfolding validate_fst by (rule format_count)
next
  assume "f \<in> set formatFields \<and> \<not> isStringEntry (raw f) \<and> (f = js ''image'' \<longrightarrow> newURL P [] = None)"
  then show "formatMessage f \<in> set (fst (validateAndSanitizeEvent P raw))"
    unfolding validate_fst errors_member using missing_format_error by blast
next
  assume a: "f \<in> set requiredFields \<union> set formatFields \<and> \<not> isStringEntry (raw f) \<and>
    (f = js ''image'' \<longrightarrow> newURL P [] = None)"
  have "fst (validateFields P raw) \<noteq> []"
  proof (cases "f \<in> set requiredFields")
    case True
    with a required_count[of f P raw] have "count_list (fst (validateFields P raw)) (f @ js '' is required'') = 1"
      by simp
    then show ?thesis by (rule count_pos_nonempty)
  next
    case False
    with a have "formatMessage f \<in> set (fst (validateFields P raw))"
      unfolding errors_member using missing_format_error by blast
    then show ?thesis by auto
  qed
  then show "snd (validateAndSanitizeEvent P raw) = None" by (rule validate_snd_None)
qed

theorem missing_field_reported_witness:
  "count_list (fst (validateAndSanitizeEvent sampleHost (sampleRaw(js ''title'' := None))))
     (js ''title is required'') = 1 \<and>
   snd (validateAndSanitizeEvent sampleHost (sampleRaw(js ''title'' := None))) = None \<and>
   js ''tags must be an array of strings with at least one item'' \<in>
     set (fst (validateAndSanitizeEvent sampleHost (sampleRaw(js ''tags'' := None))))"
  using missing_field_reported[of "js ''title''" sampleHost "sampleRaw(js ''title'' := None)"]
    missing_field_reported[of "js ''tags''" sampleHost "sampleRaw(js ''tags'' := None)"]
  by (simp add: requiredFields_def formatFields_def TEXT_FIELD_LIMITS_def isStringEntry_def
      formatMessage_def js_def)

text \<open>
  The claim as first stated fails for \<open>mode\<close>: a submission without it is answered
  with the list of allowed modes, and no message \<open>mode is required\<close>.
\<close>

theorem mode_required_counterexample:
  "(sampleRaw(js ''mode'' := None)) (js ''mode'') = None \<and>
   fst (validateAndSanitizeEvent sampleHost (sampleRaw(js ''mode'' := None))) =
     [js ''mode must be one of: online, offline, hybrid''] \<and>
   count_list (fst (validateAndSanitizeEvent sampleHost (sampleRaw(js ''mode'' := None))))
     (js ''mode is required'') = 0"
proof -
  let ?raw = "sampleRaw(js ''mode'' := None)"
  have "rawModeOf ?raw = []" by (simp add: rawModeOf_def)
  then have "modeOutcome ?raw = Inl (formatMessage (js ''mode''))"
    unfolding modeOutcome_Inl by (simp add: ALLOWED_MODES_def js_def)
  then have "(js ''mode'', Inl (formatMessage (js ''mode''))) \<in> set (fieldOutcomes sampleHost ?raw)"
    using other_in_outcomes(3)[of ?raw sampleHost] by simp
  from update_invalid[OF sample_valid this]
  have "fst (validateAndSanitizeEvent sampleHost ?raw) = [formatMessage (js ''mode'')]"
    by (simp add: validate_fst)
  moreover have "formatMessage (js ''mode'') = js ''mode must be one of: online, offline, hybrid''"
    by (simp add: formatMessage_def)
  moreover have "js ''mode must be one of: online, offline, hybrid'' \<noteq> js ''mode is required''"
    by (simp add: js_def)
  ultimately show ?thesis by simp
qed

section \<open>Text fields in the pass\<close>

lemma sanitizePlainText_eq:
  "sanitizePlainText v n = take n (stripAngles (trim v))"
  by (simp add: sanitizePlainText_def stripAngles_def Let_def)

text \<open>
  Claim C3, as amended. For every text field given as a string, with the maximum of
  the claim: the value is trimmed, the angle brackets are stripped and the result is
  truncated to the maximum, in this order. When the result is empty, which includes
  the case of an empty trimmed value, the error \<open>cannot be empty\<close> is recorded once
  and the field is not set; otherwise the field is set to the result and no such error
  is recorded. The title \<open>  <b>Hi</b>  \<close> sanitizes to \<open>bHi/b\<close>.
\<close>

theorem text_field_sanitized:
  assumes "(f, n) \<in> set [(js ''title'', 100), (js ''description'', 1000), (js ''overview'', 500),
                         (js ''venue'', 100), (js ''location'', 150), (js ''audience'', 150),
                         (js ''organizer'', 150)]"
    and "raw f = Some (Str v)"
  shows "(trim v = [] \<longrightarrow> take n (stripAngles (trim v)) = []) \<and>
         (take n (stripAngles (trim v)) = [] \<longrightarrow>
            count_list (fst (validateFields P raw)) (f @ js '' cannot be empty'') = 1 \<and>
            snd (validateFields P raw) f = None \<and>
            snd (validateAndSanitizeEvent P raw) = None) \<and>
         (take n (stripAngles (trim v)) \<noteq> [] \<longrightarrow>
            count_list (fst (validateFields P raw)) (f @ js '' cannot be empty'') = 0 \<and>
            snd (validateFields P raw) f = Some (JStr (take n (stripAngles (trim v))))) \<and>
         (\<forall>ev. validateAndSanitizeEvent P raw = ([], Some ev) \<longrightarrow>
            ev f = Some (JStr (take n (stripAngles (trim v))))) \<and>
         sanitizePlainText (js ''  <b>Hi</b>  '') 100 = js ''bHi/b''"
proof -
  from assms(1) have fn: "(f, n) \<in> set TEXT_FIELD_LIMITS" by (simp add: TEXT_FIELD_LIMITS_def)
  let ?c = "take n (stripAngles (trim v))"
  have c: "sanitizePlainText v n = ?c" by (rule sanitizePlainText_eq)
  have cnt: "count_list (fst (validateFields P raw)) (f @ js '' cannot be empty'') = (if ?c = [] then 1 else 0)"
    using empty_count[OF fn, of P raw] assms(2) c by simp
  have out: "textOutcome raw (f, n) = (f, if ?c = [] then Inl (f @ js '' cannot be empty'') else Inr (JStr ?c))"
    using assms(2) c by (simp add: textOutcome_def)
  note mem = text_in_outcomes[OF fn, of raw P, unfolded out]
  have unset: "snd (validateFields P raw) f = None" "snd (validateAndSanitizeEvent P raw) = None" if "?c = []"
  proof -
    from mem that have m: "(f, Inl (f @ js '' cannot be empty'')) \<in> set (fieldOutcomes P raw)" by simp
    then show "snd (validateFields P raw) f = None" by (rule error_unset)
    from m have "f @ js '' cannot be empty'' \<in> set (fst (validateFields P raw))"
      unfolding errors_member by blast
    then have "fst (validateFields P raw) \<noteq> []" by auto
    then show "snd (validateAndSanitizeEvent P raw) = None" by (rule validate_snd_None)
  qed
  have val: "snd (validateFields P raw) f = Some (JStr ?c)" if "?c \<noteq> []"
    using mem that by (simp add: sanitized_lookup)
  have ev: "ev f = Some (JStr ?c)" if "validateAndSanitizeEvent P raw = ([], Some ev)" for ev
  proof -
    from validate_snd_Some[OF that] have e: "fst (validateFields P raw) = []" "snd (validateFields P raw) = ev"
      by simp_all
    have "?c \<noteq> []"
    proof
      assume "?c = []"
      with cnt e(1) show False by simp
    qed
    from val[OF this] e(2) show ?thesis by simp
  qed
  have ex: "sanitizePlainText (js ''  <b>Hi</b>  '') 100 = js ''bHi/b''" by code_simp
  have e0: "trim v = [] \<longrightarrow> ?c = []" by (simp add: stripAngles_def)
  show ?thesis using cnt unset val ev ex e0 by auto
qed

theorem text_field_sanitized_witness:
  "(js ''title'', 100) \<in> set TEXT_FIELD_LIMITS \<and>
   sampleRaw (js ''title'') = Some (Str (js ''  <b>Hi</b>  '')) \<and>
   snd (validateFields sampleHost sampleRaw) (js ''title'') = Some (JStr (js ''bHi/b''))"
proof -
  have r: "sampleRaw (js ''title'') = Some (Str (js ''  <b>Hi</b>  ''))"
    by (rule sample_lookups)
  have c: "take 100 (stripAngles (trim (js ''  <b>Hi</b>  ''))) = js ''bHi/b''" by code_simp
  have ne: "take 100 (stripAngles (trim (js ''  <b>Hi</b>  ''))) \<noteq> []"
    unfolding c by (simp add: js_def)
  have m: "(js ''title'', 100) \<in> set TEXT_FIELD_LIMITS" by (simp add: TEXT_FIELD_LIMITS_def)
  have "snd (validateFields sampleHost sampleRaw) (js ''title'') =
          Some (JStr (take 100 (stripAngles (trim (js ''  <b>Hi</b>  '')))))"
    using text_field_sanitized[of "js ''title''" 100 sampleRaw "js ''  <b>Hi</b>  ''" sampleHost] r ne
    by simp
  then show ?thesis unfolding c using m r by simp
qed

text \<open>
  The claim as first stated reports the error for an empty trimmed value only and takes
  the stripped value otherwise. The title \<open><>\<close> is not empty after trimming, yet it
  is reported as empty and the field is not set.
\<close>

theorem text_field_spec_counterexample:
  "sanitizeText_spec (js ''title'') 100 (js ''<>'') = Inr (JStr []) \<and>
   trim (js ''<>'') \<noteq> [] \<and>
   fst (validateFields sampleHost (sampleRaw(js ''title'' \<mapsto> Str (js ''<>'')))) =
     [js ''title cannot be empty''] \<and>
   snd (validateFields sampleHost (sampleRaw(js ''title'' \<mapsto> Str (js ''<>'')))) (js ''title'') = None"
proof -
  let ?raw = "sampleRaw(js ''title'' \<mapsto> Str (js ''<>''))"
  have sp: "sanitizeText_spec (js ''title'') 100 (js ''<>'') = Inr (JStr [])" by code_simp
  have tr: "trim (js ''<>'') \<noteq> []" by code_simp
  have st: "sanitizePlainText (js ''<>'') 100 = []" by code_simp
  have "textOutcome ?raw (js ''title'', 100) = (js ''title'', Inl (js ''title'' @ js '' cannot be empty''))"
    by (simp add: textOutcome_def st)
  moreover have "(js ''title'', 100) \<in> set TEXT_FIELD_LIMITS" by (simp add: TEXT_FIELD_LIMITS_def)
  ultimately have m: "(js ''title'', Inl (js ''title'' @ js '' cannot be empty'')) \<in>
      set (fieldOutcomes sampleHost ?raw)"
    using text_in_outcomes[of "(js ''title'', 100)" ?raw sampleHost] by simp
  have e: "js ''title'' @ js '' cannot be empty'' = js ''title cannot be empty''" by (simp add: js_def)
  from update_invalid[OF sample_valid m] error_unset[OF m] sp tr show ?thesis
    unfolding e by simp
qed

section \<open>Lists of strings in the pass\<close>

lemma trim_Nil: "trim [] = []"
  by (simp add: trim_def)

lemma itemTrim_spec: "trim (case i of JStr s \<Rightarrow> s | _ \<Rightarrow> []) = itemTrim i"
  by (cases i) (simp_all add: itemTrim_def trim_Nil)

lemma sanitizeItems_spec_eq:
  "sanitizeItems_spec items =
     (if map stripAngles (filter (\<lambda>s. s \<noteq> []) (map itemTrim items)) = [] then None
      else Some (map stripAngles (filter (\<lambda>s. s \<noteq> []) (map itemTrim items))))"
  by (simp add: sanitizeItems_spec_def Let_def itemTrim_spec comp_def)

lemma parseStringArray_parsed:
  "JSON_parse v = Some j \<Longrightarrow>
     parseStringArray v = (case j of JArr items \<Rightarrow> sanitizeItems_spec items | _ \<Rightarrow> None)"
  by (cases j) (simp_all add: parseStringArray_def sanitizeItems_spec_eq Let_def)

lemma parseStringArray_fallback:
  "JSON_parse v = None \<Longrightarrow>
     parseStringArray v =
       sanitizeItems_spec (map JStr (if 0x2C \<in> set v then splitOn 0x2C v else [v]))"
  by (simp add: parseStringArray_def sanitizeItems_spec_eq Let_def)

lemma splitOn_nonempty: "splitOn sep s \<noteq> []"
  by (induction s) (auto split: list.splits)

lemma join_Cons: "ps \<noteq> [] \<Longrightarrow> join sep (p # ps) = p @ sep @ join sep ps"
  by (cases ps) simp_all

lemma join_splitOn: "join [sep] (splitOn sep s) = s"
proof (induction s)
  case Nil
  show ?case by simp
next
  case (Cons c r)
  show ?case
  proof (cases "c = sep")
    case True
    with Cons show ?thesis by (simp add: join_Cons splitOn_nonempty)
  next
    case False
    obtain p ps where sp: "splitOn sep r = p # ps"
      using splitOn_nonempty[of sep r] by (cases "splitOn sep r") auto
    from Cons have "join [sep] (p # ps) = r" by (simp add: sp)
    then have "join [sep] ((c # p) # ps) = c # r" by (cases ps) simp_all
    with False show ?thesis by (simp add: sp)
  qed
qed

lemma splitOn_pieces: "p \<in> set (splitOn sep s) \<Longrightarrow> sep \<notin> set p"
proof (induction s arbitrary: p)
  case Nil
  then show ?case by simp
next
  case (Cons c r)
  show ?case
  proof (cases "c = sep")
    case True
    with Cons show ?thesis by auto
  next
    case False
    obtain q qs where sp: "splitOn sep r = q # qs"
      using splitOn_nonempty[of sep r] by (cases "splitOn sep r") auto
    from Cons.prems False have "p = c # q \<or> p \<in> set qs" by (simp add: sp)
    then show ?thesis
    proof
      assume "p = c # q"
      moreover have "sep \<notin> set q" using Cons.IH[of q] by (simp add: sp)
      ultimately show ?thesis using False by auto
    next
      assume "p \<in> set qs"
      then show ?thesis using Cons.IH[of p] by (simp add: sp)
    qed
  qed
qed

lemma arrayOf_string:
  "raw f = Some (Str v) \<Longrightarrow> arrayOf f raw = (if v = [] then None else parseStringArray v)"
  by (simp add: arrayOf_def stringOrEmpty_def)

lemma array_rejected:
  assumes "f = js ''agenda'' \<or> f = js ''tags''" "raw f = Some (Str v)" "parseStringArray v = None"
  shows "f @ js '' must be an array of strings with at least one item'' \<in> set (fst (validateFields P raw))"
proof -
  have "arrayOutcome f raw = Inl (f @ js '' must be an array of strings with at least one item'')"
    unfolding arrayOutcome_Inl using arrayOf_string[of raw f v, OF assms(2)] assms(3) by simp
  moreover have "(f, arrayOutcome f raw) \<in> set (fieldOutcomes P raw)"
    using assms(1) other_in_outcomes(4,5)[of raw P] by auto
  ultimately show ?thesis unfolding errors_member by auto
qed

lemma array_accepted:
  assumes "f = js ''agenda'' \<or> f = js ''tags''" "raw f = Some (Str v)" "v \<noteq> []"
    "parseStringArray v = Some xs"
  shows "snd (validateFields P raw) f = Some (JArr (map JStr xs))"
proof -
  have "arrayOutcome f raw = Inr (JArr (map JStr xs))"
    using arrayOf_string[of raw f v, OF assms(2)] assms(3,4) by (simp add: arrayOutcome_def)
  moreover have "(f, arrayOutcome f raw) \<in> set (fieldOutcomes P raw)"
    using assms(1) other_in_outcomes(4,5)[of raw P] by auto
  ultimately show ?thesis unfolding sanitized_lookup by simp
qed

text \<open>
  Claim C5. \<open>parseStringArray\<close> first tries \<open>JSON.parse\<close>; when that fails it splits
  the string on commas if it has one (the pieces are comma-free and joined by commas
  give the string back) and otherwise takes the string as the only element. A parsed
  value that is no list is rejected. The elements are mapped (a non-string to the empty
  string), trimmed, the empty ones dropped, the angle brackets stripped, and a list
  left empty is rejected; a rejection of \<open>agenda\<close> or \<open>tags\<close> is reported by the
  field's array error. So \<open>["AI","Cloud"]\<close> and \<open>AI,Cloud\<close> both give the two
  elements \<open>AI\<close> and \<open>Cloud\<close>, and \<open>[]\<close> is rejected.
\<close>

theorem parseStringArray_behaviour:
  "(\<forall>j. JSON_parse v = Some j \<longrightarrow>
      parseStringArray v = (case j of JArr items \<Rightarrow> sanitizeItems_spec items | _ \<Rightarrow> None)) \<and>
   (JSON_parse v = None \<and> 0x2C \<in> set v \<longrightarrow>
      parseStringArray v = sanitizeItems_spec (map JStr (splitOn 0x2C v))) \<and>
   (JSON_parse v = None \<and> 0x2C \<notin> set v \<longrightarrow> parseStringArray v = sanitizeItems_spec [JStr v]) \<and>
   join (js '','') (splitOn 0x2C v) = v \<and> (\<forall>p\<in>set (splitOn 0x2C v). 0x2C \<notin> set p) \<and>
   ((f = js ''agenda'' \<or> f = js ''tags'') \<and> raw f = Some (Str v) \<and> parseStringArray v = None \<longrightarrow>
      f @ js '' must be an array of strings with at least one item'' \<in> set (fst (validateFields P raw))) \<and>
   (\<forall>xs. (f = js ''agenda'' \<or> f = js ''tags'') \<and> raw f = Some (Str v) \<and> v \<noteq> [] \<and>
         parseStringArray v = Some xs \<longrightarrow>
      snd (validateFields P raw) f = Some (JArr (map JStr xs))) \<and>
   parseStringArray (js ''[\"AI\",\"Cloud\"]'') = Some [js ''AI'', js ''Cloud''] \<and>
   parseStringArray (js ''AI,Cloud'') = Some [js ''AI'', js ''Cloud''] \<and>
   parseStringArray (js ''[]'') = None"
proof -
  have comma: "js '','' = [0x2C]" by (simp add: js_def)
  have e1: "parseStringArray (js ''[\"AI\",\"Cloud\"]'') = Some [js ''AI'', js ''Cloud'']" by code_simp
  have e2: "parseStringArray (js ''AI,Cloud'') = Some [js ''AI'', js ''Cloud'']" by code_simp
  have e3: "parseStringArray (js ''[]'') = None" by code_simp
  show ?thesis
    unfolding comma
    using parseStringArray_parsed[of v] parseStringArray_fallback[of v] join_splitOn[of "0x2C" v]
      splitOn_pieces[of _ "0x2C" v] array_rejected[of f raw v P] array_accepted[of f raw v _ P]
      e1 e2 e3
    by (intro conjI allI impI ballI) auto
qed

theorem parseStringArray_behaviour_witness:
  "parseStringArray (js ''a, <b> ,,c'') = Some [js ''a'', js ''b'', js ''c''] \<and>
   parseStringArray (js ''[1, \" x \"]'') = Some [js ''x''] \<and>
   parseStringArray (js ''{}'') = None \<and>
   snd (validateFields sampleHost sampleRaw) (js ''tags'') = Some (JArr [JStr (js ''bAI/b''), JStr (js ''Cloud'')])"
proof -
  have p1: "JSON_parse (js ''a, <b> ,,c'') = None" by code_simp
  have c1: "0x2C \<in> set (js ''a, <b> ,,c'')" by (simp add: js_def)
  have s1: "sanitizeItems_spec (map JStr (splitOn 0x2C (js ''a, <b> ,,c''))) = Some [js ''a'', js ''b'', js ''c'']"
    by code_simp
  have p2: "JSON_parse (js ''[1, \" x \"]'') = Some (JArr [JNum (js ''1''), JStr (js '' x '')])" by code_simp
  have s2: "sanitizeItems_spec [JNum (js ''1''), JStr (js '' x '')] = Some [js ''x'']" by code_simp
  have p3: "JSON_parse (js ''{}'') = Some (JObj [])" by code_simp
  have p4: "parseStringArray (js ''[\"<b>AI</b>\",\"Cloud\"]'') = Some [js ''bAI/b'', js ''Cloud'']" by code_simp
  have r: "sampleRaw (js ''tags'') = Some (Str (js ''[\"<b>AI</b>\",\"Cloud\"]''))"
    by (rule sample_lookups)
  have ne: "js ''[\"<b>AI</b>\",\"Cloud\"]'' \<noteq> []" by (simp add: js_def)
  note t1 = parseStringArray_behaviour[of "js ''a, <b> ,,c''" "js ''tags''" sampleRaw sampleHost]
  note t2 = parseStringArray_behaviour[of "js ''[1, \" x \"]''" "js ''tags''" sampleRaw sampleHost]
  note t3 = parseStringArray_behaviour[of "js ''{}''" "js ''tags''" sampleRaw sampleHost]
  note t4 = parseStringArray_behaviour[of "js ''[\"<b>AI</b>\",\"Cloud\"]''" "js ''tags''" sampleRaw sampleHost]
  have a: "parseStringArray (js ''a, <b> ,,c'') = Some [js ''a'', js ''b'', js ''c'']"
    using t1 p1 c1 s1 by simp
  have b: "parseStringArray (js ''[1, \" x \"]'') = Some [js ''x'']"
    using t2 p2 s2 by simp
  have c: "parseStringArray (js ''{}'') = None"
    using t3 p3 by simp
  have d: "snd (validateFields sampleHost sampleRaw) (js ''tags'') =
             Some (JArr [JStr (js ''bAI/b''), JStr (js ''Cloud'')])"
    using t4 r ne p4 by simp
  from a b c d show ?thesis by simp
qed

text \<open>
  Claim C6 asks that no element of \<open>agenda\<close> or \<open>tags\<close> in a returned record is the
  empty string. The code drops the empty elements before it strips the angle brackets,
  so an element made of angle brackets only survives as the empty string: the
  submission with tags \<open><\<close> is accepted with the tags list holding one empty string.
\<close>

theorem tags_empty_element:
  "parseStringArray (js ''<'') = Some [[]] \<and>
   (case validateAndSanitizeEvent sampleHost (sampleRaw(js ''tags'' \<mapsto> Str (js ''<''))) of
      (errors, None) \<Rightarrow> False
    | (errors, Some ev) \<Rightarrow> errors = [] \<and> ev (js ''tags'') = Some (JArr [JStr []]))"
proof -
  let ?raw = "sampleRaw(js ''tags'' \<mapsto> Str (js ''<''))"
  have p: "parseStringArray (js ''<'') = Some [[]]" by code_simp
  have ne: "js ''<'' \<noteq> []" by (simp add: js_def)
  have "arrayOutcome (js ''tags'') ?raw = Inr (JArr [JStr []])"
    by (simp add: arrayOutcome_def arrayOf_def stringOrEmpty_def p ne)
  then have m: "(js ''tags'', Inr (JArr [JStr []])) \<in> set (fieldOutcomes sampleHost ?raw)"
    using other_in_outcomes(5)[of ?raw sampleHost] by simp
  note u = update_valid[OF sample_valid m]
  from validate_result[OF u(1)] u(2) p show ?thesis by simp
qed

section \<open>The calendar\<close>

lemma div_succ:
  fixes a n :: int
  assumes "0 < n"
  shows "(a + 1) div n = a div n + (if (a + 1) mod n = 0 then 1 else 0)"
proof (cases "a mod n + 1 < n")
  case True
  have e: "a + 1 = n * (a div n) + (a mod n + 1)" by simp
  have r: "0 \<le> a mod n + 1" using assms by (simp add: add_nonneg_nonneg)
  have "(a + 1) div n = a div n" using int_div_pos_eq[OF e r True] .
  moreover have "(a + 1) mod n = a mod n + 1" using int_mod_pos_eq[OF e r True] .
  moreover have "0 \<le> a mod n" using assms by simp
  ultimately show ?thesis by simp
next
  case False
  have "a mod n < n" using assms by simp
  with False have m: "a mod n + 1 = n" by simp
  have "a + 1 = n * (a div n) + (a mod n + 1)" by simp
  then have e: "a + 1 = n * (a div n + 1) + 0" unfolding m by (simp add: algebra_simps)
  have "(a + 1) div n = a div n + 1" using int_div_pos_eq[OF e _ assms] by simp
  moreover have "(a + 1) mod n = 0" using int_mod_pos_eq[OF e _ assms] by simp
  ultimately show ?thesis by simp
qed

lemma mod_shift: "(y - k * n) mod n = y mod n" for y k n :: int
  using mod_mult_self1[of y "- k" n] by simp

lemma leap_mods:
  fixes y :: int
  shows "(y + 1 - 1969) mod 4 = 0 \<longleftrightarrow> y mod 4 = 0"
    and "(y + 1 - 1901) mod 100 = 0 \<longleftrightarrow> y mod 100 = 0"
    and "(y + 1 - 1601) mod 400 = 0 \<longleftrightarrow> y mod 400 = 0"
  using mod_shift[of y 492 4] mod_shift[of y 19 100] mod_shift[of y 4 400] by simp_all

lemma mod_100_4: "y mod 100 = 0 \<Longrightarrow> y mod 4 = 0" for y :: int
  using mod_mod_cancel[of 4 100 y] by simp

lemma mod_400_100: "y mod 400 = 0 \<Longrightarrow> y mod 100 = 0" for y :: int
  using mod_mod_cancel[of 100 400 y] by simp

lemma DayFromYear_step: "DayFromYear (y + 1) = DayFromYear y + DaysInYear y"
proof -
  have a: "(y + 1 - 1969) div 4 = (y - 1969) div 4 + (if y mod 4 = 0 then 1 else 0)"
    using div_succ[of 4 "y - 1969"] leap_mods(1)[of y] by (simp add: algebra_simps)
  have b: "(y + 1 - 1901) div 100 = (y - 1901) div 100 + (if y mod 100 = 0 then 1 else 0)"
    using div_succ[of 100 "y - 1901"] leap_mods(2)[of y] by (simp add: algebra_simps)
  have c: "(y + 1 - 1601) div 400 = (y - 1601) div 400 + (if y mod 400 = 0 then 1 else 0)"
    using div_succ[of 400 "y - 1601"] leap_mods(3)[of y] by (simp add: algebra_simps)
  show ?thesis
    unfolding DayFromYear_def DaysInYear_def a b c
    using mod_100_4[of y] mod_400_100[of y] by auto
qed

lemma DaysInYear_bounds: "365 \<le> DaysInYear y \<and> DaysInYear y \<le> 366"
  by (simp add: DaysInYear_def)

lemma DayFromYear_less: "DayFromYear y < DayFromYear (y + 1)"
  using DayFromYear_step[of y] DaysInYear_bounds[of y] by simp

lemma DayFromYear_mono: "y \<le> y' \<Longrightarrow> DayFromYear y \<le> DayFromYear y'"
proof (induction y' rule: int_ge_induct)
  case base
  show ?case by simp
next
  case (step i)
  then show ?case using DayFromYear_less[of i] by simp
qed

lemma DayFromYear_strict: "y < y' \<Longrightarrow> DayFromYear y < DayFromYear y'"
  using DayFromYear_mono[of "y + 1" y'] DayFromYear_less[of y] by simp

lemma yearSearch_bracket:
  "DayFromYear y0 \<le> d \<Longrightarrow>
     DayFromYear (yearSearch y0 d) \<le> d \<and> d < DayFromYear (yearSearch y0 d + 1)"
proof (induction y0 d rule: yearSearch.induct)
  case (1 y d)
  show ?case
  proof (cases "DayFromYear (y + 1) \<le> d")
    case True
    with 1 show ?thesis by (simp add: yearSearch.simps[of y d])
  next
    case False
    with 1 show ?thesis by (simp add: yearSearch.simps[of y d])
  qed
qed

lemma DayFromYear_1970: "DayFromYear 1970 = 0"
  by (simp add: DayFromYear_def)

lemma DayFromYear_upper: "DayFromYear (1970 + int k) \<le> 366 * int k"
proof (induction k)
  case 0
  show ?case by (simp add: DayFromYear_1970)
next
  case (Suc k)
  have "DayFromYear (1970 + int (Suc k)) = DayFromYear (1970 + int k + 1)" by (simp add: algebra_simps)
  also have "\<dots> \<le> DayFromYear (1970 + int k) + 366"
    using DayFromYear_step[of "1970 + int k"] DaysInYear_bounds[of "1970 + int k"] by simp
  finally show ?case using Suc by simp
qed

lemma DayFromYear_lower: "DayFromYear (1970 - int k) \<le> - 365 * int k"
proof (induction k)
  case 0
  show ?case by (simp add: DayFromYear_1970)
next
  case (Suc k)
  have "DayFromYear (1970 - int k) = DayFromYear (1970 - int (Suc k) + 1)" by (simp add: algebra_simps)
  also have "\<dots> \<ge> DayFromYear (1970 - int (Suc k)) + 365"
    using DayFromYear_step[of "1970 - int (Suc k)"] DaysInYear_bounds[of "1970 - int (Suc k)"] by simp
  finally show ?case using Suc by simp
qed

lemma estimate_le: "DayFromYear (1970 + (if 0 \<le> d then d div 366 else d div 365)) \<le> d"
proof (cases "0 \<le> d")
  case True
  then have "0 \<le> d div 366" by simp
  then obtain k where k: "d div 366 = int k" using nonneg_int_cases by blast
  have "366 * (d div 366) \<le> d" using True by (simp add: mult.commute)
  with DayFromYear_upper[of k] True show ?thesis by (simp add: k)
next
  case False
  then have "d div 365 \<le> 0" by (simp add: div_nonpos_pos_le0)
  then obtain k where k: "d div 365 = - int k" using nonpos_int_cases by blast
  have "365 * (d div 365) \<le> d"
    using mult_div_mod_eq[of 365 d] pos_mod_sign[of 365 d] by linarith
  with DayFromYear_lower[of k] False show ?thesis by (simp add: k)
qed

lemma YearFromDay_bracket:
  "DayFromYear (YearFromDay d) \<le> d \<and> d < DayFromYear (YearFromDay d + 1)"
  unfolding YearFromDay_def by (rule yearSearch_bracket[OF estimate_le])

lemma YearFromDay_unique:
  assumes "DayFromYear y \<le> d" "d < DayFromYear (y + 1)"
  shows "YearFromDay d = y"
proof (rule ccontr)
  assume ne: "YearFromDay d \<noteq> y"
  note b = YearFromDay_bracket[of d]
  show False
  proof (cases "YearFromDay d < y")
    case True
    then have "DayFromYear (YearFromDay d + 1) \<le> DayFromYear y" by (simp add: DayFromYear_mono)
    with b assms show False by simp
  next
    case False
    with ne have "y + 1 \<le> YearFromDay d" by simp
    then have "DayFromYear (y + 1) \<le> DayFromYear (YearFromDay d)" by (rule DayFromYear_mono)
    with b assms show False by simp
  qed
qed

lemma dayWithinYear:
  "0 \<le> d - DayFromYear (YearFromDay d) \<and>
   d - DayFromYear (YearFromDay d) < 365 + InLeapYear (YearFromDay d)"
  using YearFromDay_bracket[of d] DayFromYear_step[of "YearFromDay d"]
  by (simp add: InLeapYear_def)

lemma InLeapYear_01: "InLeapYear y = 0 \<or> InLeapYear y = 1"
  by (simp add: InLeapYear_def DaysInYear_def)

lemma digitChar_props: "d < 10 \<Longrightarrow> isDigit (digitChar d) \<and> digitVal (digitChar d) = d"
proof -
  assume d: "d < 10"
  have "unat (word_of_nat (48 + d) :: 16 word) = (48 + d) mod 2 ^ LENGTH(16)"
    by (rule unat_of_nat)
  then have u: "unat (digitChar d) = 48 + d"
    unfolding digitChar_def using d by simp
  show ?thesis
    unfolding isDigit_def digitVal_def word_le_nat_alt u using d by simp
qed

lemma decimalValue_snoc: "decimalValue (ds @ [c]) = 10 * decimalValue ds + digitVal c"
  by (simp add: decimalValue_def)

lemma toString_props:
  "toString n \<noteq> [] \<and> list_all isDigit (toString n) \<and> decimalValue (toString n) = n"
proof (induction n rule: toString.induct)
  case (1 n)
  show ?case
  proof (cases "n < 10")
    case True
    then show ?thesis
      using digitChar_props[of n] by (simp add: toString.simps[of n] decimalValue_def)
  next
    case False
    with 1 have ih: "toString (n div 10) \<noteq> []" "list_all isDigit (toString (n div 10))"
      "decimalValue (toString (n div 10)) = n div 10" by simp_all
    have m: "n mod 10 < 10" by simp
    from False ih digitChar_props[OF m] show ?thesis
      by (simp add: toString.simps[of n] decimalValue_snoc)
  qed
qed

lemma toString_length: "n < 10 ^ k \<Longrightarrow> 0 < k \<Longrightarrow> length (toString n) \<le> k"
proof (induction n arbitrary: k rule: toString.induct)
  case (1 n)
  show ?case
  proof (cases "n < 10")
    case True
    with 1(3) show ?thesis by (simp add: toString.simps[of n])
  next
    case False
    obtain j where j: "k = Suc j" using 1(3) by (cases k) auto
    from False 1(2) have "0 < j" unfolding j by (cases j) auto
    moreover from 1(2) have "n div 10 < 10 ^ j" unfolding j by (simp add: less_mult_imp_div_less mult.commute)
    ultimately have "length (toString (n div 10)) \<le> j" using 1(1)[OF False] by simp
    with False show ?thesis by (simp add: toString.simps[of n] j)
  qed
qed

lemma digitVal_zero: "digitVal 0x30 = 0"
  by (simp add: digitVal_def)

lemma isDigit_zero: "isDigit 0x30"
  by (simp add: isDigit_def)

lemma decimalValue_zeros: "decimalValue (replicate j 0x30 @ ds) = decimalValue ds"
  by (induction j) (simp_all add: decimalValue_def digitVal_zero)

lemma padNum_props:
  assumes "0 \<le> x" "x < 10 ^ k" "0 < k"
  shows "length (padNum k x) = k \<and> list_all isDigit (padNum k x) \<and> decimalValue (padNum k x) = nat x"
proof -
  from assms have "nat x < 10 ^ k"
    by (metis nat_less_iff of_nat_numeral of_nat_power)
  from toString_length[OF this assms(3)] toString_props[of "nat x"] show ?thesis
    by (auto simp add: padNum_def padStart_def decimalValue_zeros isDigit_zero list_all_iff)
qed

lemma padNum_digits: "list_all isDigit (padNum k x)"
  using toString_props[of "nat x"] by (auto simp add: padNum_def padStart_def isDigit_zero list_all_iff)

lemma padNum_nonempty: "padNum k x \<noteq> []"
  using toString_props[of "nat x"] by (simp add: padNum_def padStart_def)

lemma digitsVal_padNum:
  assumes "0 \<le> x" "x < 10 ^ k" "0 < k"
  shows "digitsVal (padNum k x) = Some x"
  using padNum_props[OF assms] padNum_nonempty[of k x] assms(1) by (simp add: digitsVal_def)

lemma month_date:
  assumes "L = 0 \<or> L = 1" "0 \<le> k" "k < 365 + L"
  shows "0 \<le> MonthFromDay L k \<and> MonthFromDay L k \<le> 11 \<and>
         1 \<le> DateFromDay L k \<and> DateFromDay L k \<le> 31 \<and>
         (InLeapYear y = L \<longrightarrow> DateFromDay L k \<le> DaysInMonth y (MonthFromDay L k + 1)) \<and>
         monthStart L (MonthFromDay L k + 1 - 1) + DateFromDay L k - 1 = k"
  using assms
  by (auto simp: MonthFromDay_def DateFromDay_def monthStart_def DaysInMonth_def)

lemma splitOn_first: "sep \<notin> set xs \<Longrightarrow> splitOn sep (xs @ sep # ys) = xs # splitOn sep ys"
  by (induction xs) auto

lemma digit_not_T: "isDigit c \<Longrightarrow> c \<noteq> 0x54 \<and> c \<noteq> 0x2B \<and> c \<noteq> 0x2D"
  by (auto simp: isDigit_def word_le_nat_alt)

lemma padNum_no_T: "0x54 \<notin> set (padNum k x)"
  using padNum_digits[of k x] digit_not_T by (auto simp: list_all_iff)

lemma isoDate_no_T: "0x54 \<notin> set (isoDate d)"
  by (simp add: isoDate_def isoYear_def Let_def padNum_no_T js_def)

lemma isoDate_nonempty: "isoDate d \<noteq> []"
  by (simp add: isoDate_def Let_def js_def)

lemma normalizeDate_eq:
  "normalizeDate P v = map_option (\<lambda>t. isoDate (t div msPerDay)) (newDate P v)"
proof (cases "newDate P v")
  case None
  then show ?thesis by (simp add: normalizeDate_def)
next
  case (Some t)
  have "toISOString t = isoDate (t div msPerDay) @ 0x54 # (isoTime (t mod msPerDay) @ js ''Z'')"
    by (simp add: toISOString_def js_def)
  then have "splitOn 0x54 (toISOString t) =
      isoDate (t div msPerDay) # splitOn 0x54 (isoTime (t mod msPerDay) @ js ''Z'')"
    using splitOn_first[OF isoDate_no_T] by simp
  with Some show ?thesis by (simp add: normalizeDate_def)
qed

lemma isoYearPart_isoYear:
  assumes "- 1000000 < y" "y < 1000000"
  shows "isoYearPart (isoYear y @ r) = Some (y, r)"
proof (cases "0 \<le> y \<and> y \<le> 9999")
  case True
  then have p: "length (padNum 4 y) = 4" "digitsVal (padNum 4 y) = Some y"
    using padNum_props[of y 4] digitsVal_padNum[of y 4] by simp_all
  obtain c cs where cs: "padNum 4 y = c # cs" using padNum_nonempty[of 4 y] by (cases "padNum 4 y") auto
  have "isDigit c" using padNum_digits[of 4 y] by (simp add: cs)
  then have h: "hd (padNum 4 y @ r) \<noteq> 0x2B \<and> hd (padNum 4 y @ r) \<noteq> 0x2D"
    using digit_not_T[of c] by (simp add: cs)
  show ?thesis
    using True p h by (simp add: isoYearPart_def isoYear_def)
next
  case False
  have b: "0 \<le> \<bar>y\<bar>" "\<bar>y\<bar> < 10 ^ 6" using assms by simp_all
  have p: "length (padNum 6 \<bar>y\<bar>) = 6" "digitsVal (padNum 6 \<bar>y\<bar>) = Some \<bar>y\<bar>"
    using padNum_props[OF b] digitsVal_padNum[OF b] by simp_all
  show ?thesis
  proof (cases "y < 0")
    case True
    with False p show ?thesis by (simp add: isoYearPart_def isoYear_def)
  next
    case False
    with \<open>\<not> (0 \<le> y \<and> y \<le> 9999)\<close> p show ?thesis by (simp add: isoYearPart_def isoYear_def)
  qed
qed

lemma sepField_padNum:
  assumes "0 \<le> x" "x < 100"
  shows "sepField sep (sep # padNum 2 x @ r) = Some (x, r)"
proof -
  have b: "x < 10 ^ 2" using assms by simp
  from padNum_props[OF assms(1) b] have p: "length (padNum 2 x) = 2" "list_all isDigit (padNum 2 x)"
    "decimalValue (padNum 2 x) = nat x" by simp_all
  from p(1) obtain a c where ac: "padNum 2 x = [a, c]"
    by (cases "padNum 2 x"; cases "tl (padNum 2 x)") auto
  with p assms show ?thesis by (simp add: sepField_def)
qed

lemma sepField_Nil: "sepField sep [] = None"
  by (simp add: sepField_def)

lemma parseISO_isoDate:
  assumes "- 1000000 < YearFromDay d" "YearFromDay d < 1000000"
  shows "parseISO (isoDate d) = Some (d * msPerDay)"
proof -
  define y where "y = YearFromDay d"
  define k where "k = d - DayFromYear y"
  define L where "L = InLeapYear y"
  define m where "m = MonthFromDay L k"
  define dt where "dt = DateFromDay L k"
  have k: "0 \<le> k" "k < 365 + L" using dayWithinYear[of d] by (simp_all add: k_def y_def L_def)
  have L: "L = 0 \<or> L = 1" unfolding L_def by (rule InLeapYear_01)
  note md = month_date[OF L k, of y, folded m_def dt_def]
  have iso: "isoDate d = isoYear y @ 0x2D # padNum 2 (m + 1) @ 0x2D # padNum 2 dt @ []"
    by (simp add: isoDate_def Let_def y_def k_def L_def m_def dt_def js_def)
  have m1: "0 \<le> m + 1" "m + 1 < 100" using md by simp_all
  have d1: "0 \<le> dt" "dt < 100" using md by simp_all
  have part: "isoDatePart (isoDate d) = Some (y, m + 1, dt, [])"
    unfolding iso isoDatePart_def
    using sepField_padNum[OF d1, of "0x2D" "[]"]
    by (simp add: isoYearPart_isoYear[OF assms[folded y_def]] sepField_padNum[OF m1])
  have "DayFromYear y + monthStart (InLeapYear y) (m + 1 - 1) + dt - 1 = d"
    using md by (simp add: L_def[symmetric] k_def)
  then show ?thesis
    using md by (simp add: parseISO_def part L_def[symmetric])
qed

lemma DayFromYear_far:
  "100000000 < DayFromYear 1000000" "DayFromYear (- 999999) < - 100000000"
  by (simp_all add: DayFromYear_def)

lemma year_bound:
  assumes "- 100000000 \<le> d" "d \<le> 100000000"
  shows "- 1000000 < YearFromDay d \<and> YearFromDay d < 1000000"
proof -
  note b = YearFromDay_bracket[of d]
  have "YearFromDay d < 1000000"
  proof (rule ccontr)
    assume "\<not> YearFromDay d < 1000000"
    then have "DayFromYear 1000000 \<le> DayFromYear (YearFromDay d)" by (simp add: DayFromYear_mono)
    with b assms DayFromYear_far show False by simp
  qed
  moreover have "- 1000000 < YearFromDay d"
  proof (rule ccontr)
    assume "\<not> - 1000000 < YearFromDay d"
    then have "DayFromYear (YearFromDay d + 1) \<le> DayFromYear (- 999999)" by (simp add: DayFromYear_mono)
    with b assms DayFromYear_far show False by simp
  qed
  ultimately show ?thesis by simp
qed

lemma TimeClip_day:
  assumes "TimeClip t = Some t'"
  shows "t' = t \<and> - 100000000 \<le> t div msPerDay \<and> t div msPerDay \<le> 100000000 \<and>
         TimeClip (t div msPerDay * msPerDay) = Some (t div msPerDay * msPerDay)"
proof -
  from assms have t: "t' = t" "- 8640000000000000 \<le> t" "t \<le> 8640000000000000"
    by (auto simp: TimeClip_def split: if_splits)
  have lo: "- 100000000 \<le> t div msPerDay"
    using zdiv_mono1[of "- 8640000000000000" t msPerDay] t(2) by (simp add: msPerDay_def)
  have hi: "t div msPerDay \<le> 100000000"
    using zdiv_mono1[of t 8640000000000000 msPerDay] t(3) by (simp add: msPerDay_def)
  from lo hi have "\<bar>t div msPerDay * msPerDay\<bar> \<le> 8640000000000000"
    by (simp add: msPerDay_def abs_le_iff)
  with t(1) lo hi show ?thesis by (simp add: TimeClip_def)
qed

lemma newDate_TimeClip: "newDate P v = Some t \<Longrightarrow> TimeClip t = Some t"
  by (auto simp: newDate_def TimeClip_def split: option.splits if_splits)

lemma normalizeDate_fixed:
  assumes "normalizeDate P v = Some s"
  shows "normalizeDate P s = Some s"
proof -
  from assms obtain t where t: "newDate P v = Some t" "s = isoDate (t div msPerDay)"
    unfolding normalizeDate_eq by auto
  define d where "d = t div msPerDay"
  note tc = TimeClip_day[OF newDate_TimeClip[OF t(1)], folded d_def]
  from year_bound[of d] tc have yb: "- 1000000 < YearFromDay d" "YearFromDay d < 1000000" by simp_all
  have "newDate P (isoDate d) = Some (d * msPerDay)"
    using parseISO_isoDate[OF yb] tc by (simp add: newDate_def Date_parse_def)
  moreover have "d * msPerDay div msPerDay = d" by (simp add: msPerDay_def)
  ultimately show ?thesis
    unfolding normalizeDate_eq t(2) d_def[symmetric] by simp
qed

lemma isoDate_shape:
  assumes "0 \<le> YearFromDay d" "YearFromDay d \<le> 9999"
  shows "isoCalendarDate (isoDate d)"
proof -
  define y where "y = YearFromDay d"
  define k where "k = d - DayFromYear y"
  define L where "L = InLeapYear y"
  define m where "m = MonthFromDay L k"
  define dt where "dt = DateFromDay L k"
  have k: "0 \<le> k" "k < 365 + L" using dayWithinYear[of d] by (simp_all add: k_def y_def L_def)
  have L: "L = 0 \<or> L = 1" unfolding L_def by (rule InLeapYear_01)
  note md = month_date[OF L k, of y, folded m_def dt_def]
  have py: "length (padNum 4 y) = 4" "list_all isDigit (padNum 4 y)"
    using padNum_props[of y 4] assms by (simp_all add: y_def)
  have pm: "length (padNum 2 (m + 1)) = 2" "list_all isDigit (padNum 2 (m + 1))"
    using padNum_props[of "m + 1" 2] md by simp_all
  have pd: "length (padNum 2 dt) = 2" "list_all isDigit (padNum 2 dt)"
    using padNum_props[of dt 2] md by simp_all
  have iso: "isoDate d = padNum 4 y @ 0x2D # padNum 2 (m + 1) @ 0x2D # padNum 2 dt"
    using assms by (simp add: isoDate_def isoYear_def Let_def y_def k_def L_def m_def dt_def js_def)
  show ?thesis
    unfolding iso isoCalendarDate_def using py pm pd by (simp add: nth_append)
qed

section \<open>Dates in the pass\<close>

lemma date_error_count:
  "count_list (fst (validateFields P raw)) (js ''date must be a valid date'') =
     (if \<exists>v. raw (js ''date'') = Some (Str v) \<and> (normalizeDate P v = None \<or> normalizeDate P v = Some [])
      then 1 else 0)"
  by (simp add: count_errors fieldOutcomes_def TEXT_FIELD_LIMITS_def outcome_Inl
        formatMessage_def js_def)

lemma normalizeDate_nonempty: "normalizeDate P v \<noteq> Some []"
  unfolding normalizeDate_eq using isoDate_nonempty by (cases "newDate P v") auto

lemma date_rejected:
  assumes "raw (js ''date'') = Some (Str v)" "newDate P v = None"
  shows "js ''date must be a valid date'' \<in> set (fst (validateFields P raw)) \<and>
         snd (validateFields P raw) (js ''date'') = None"
proof -
  have "dateOutcome P raw = Inl (js ''date must be a valid date'')"
    using assms by (simp add: dateOutcome_def normalizeDate_eq)
  with other_in_outcomes(1)[of P raw]
  have m: "(js ''date'', Inl (js ''date must be a valid date'')) \<in> set (fieldOutcomes P raw)" by simp
  from error_unset[OF m] m show ?thesis unfolding errors_member by blast
qed

lemma date_accepted:
  assumes "raw (js ''date'') = Some (Str v)" "newDate P v = Some t"
  shows "snd (validateFields P raw) (js ''date'') = Some (JStr (isoDate (t div msPerDay))) \<and>
         js ''date must be a valid date'' \<notin> set (fst (validateFields P raw))"
proof -
  have n: "normalizeDate P v = Some (isoDate (t div msPerDay))"
    using assms(2) by (simp add: normalizeDate_eq)
  have "dateOutcome P raw = Inr (JStr (isoDate (t div msPerDay)))"
    by (simp add: dateOutcome_def assms(1) n isoDate_nonempty)
  with other_in_outcomes(1)[of P raw]
  have "snd (validateFields P raw) (js ''date'') = Some (JStr (isoDate (t div msPerDay)))"
    by (simp add: sanitized_lookup)
  moreover have "count_list (fst (validateFields P raw)) (js ''date must be a valid date'') = 0"
    unfolding date_error_count using assms(1) n isoDate_nonempty[of "t div msPerDay"] by auto
  ultimately show ?thesis by (simp add: count_list_0_iff)
qed

lemma padStart_length: "n \<le> length (padStart n c s)"
proof -
  have "n \<le> n - l + l" for l :: nat by arith
  then show ?thesis by (simp add: padStart_def)
qed

lemma isoYear_long:
  assumes "\<not> (0 \<le> y \<and> y \<le> 9999)"
  shows "7 \<le> length (isoYear y)"
proof -
  have "isoYear y = (if y < 0 then 0x2D else 0x2B) # padNum 6 \<bar>y\<bar>"
    unfolding isoYear_def if_not_P[OF assms] ..
  then show ?thesis
    using padStart_length[of 6 "0x30" "toString (nat \<bar>y\<bar>)"] by (simp add: padNum_def)
qed

lemma isoDate_expanded:
  assumes "YearFromDay d < 0 \<or> 9999 < YearFromDay d"
  shows "\<not> isoCalendarDate (isoDate d)"
proof -
  define y where "y = YearFromDay d"
  define M where "M = MonthFromDay (InLeapYear y) (d - DayFromYear y) + 1"
  define D where "D = DateFromDay (InLeapYear y) (d - DayFromYear y)"
  from assms have 1: "7 \<le> length (isoYear y)" unfolding y_def by (intro isoYear_long) auto
  have 2: "2 \<le> length (padNum 2 a)" for a
    using padStart_length[of 2 "0x30"] by (simp add: padNum_def)
  have "length (isoDate d) = length (isoYear y) + 1 + length (padNum 2 M) + 1 + length (padNum 2 D)"
    by (simp add: isoDate_def Let_def js_def y_def M_def D_def)
  with 1 2[of M] 2[of D] have "10 < length (isoDate d)" by linarith
  then show ?thesis by (simp add: isoCalendarDate_def)
qed

lemma normalizeDate_parsed:
  "parseISO s = Some t \<Longrightarrow>
     normalizeDate P s = map_option (\<lambda>t. isoDate (t div msPerDay)) (TimeClip t)"
  by (simp add: normalizeDate_eq newDate_def Date_parse_def split: option.splits)

lemma normalizeDate_unparsed:
  "parseISO s = None \<Longrightarrow> \<not> list_ex isDigit s \<or> dateFallback P s = None \<Longrightarrow> normalizeDate P s = None"
  by (auto simp add: normalizeDate_eq newDate_def Date_parse_def)

lemma normalizeDate_isoDate:
  assumes "- 100000000 \<le> d" "d \<le> 100000000"
  shows "normalizeDate P (isoDate d) = Some (isoDate d)"
proof -
  from year_bound[OF assms] have yb: "- 1000000 < YearFromDay d" "YearFromDay d < 1000000" by simp_all
  have "\<bar>d * msPerDay\<bar> \<le> 8640000000000000" using assms by (simp add: msPerDay_def abs_le_iff)
  then have "newDate P (isoDate d) = Some (d * msPerDay)"
    using parseISO_isoDate[OF yb] by (simp add: newDate_def Date_parse_def TimeClip_def)
  moreover have "d * msPerDay div msPerDay = d" by (simp add: msPerDay_def)
  ultimately show ?thesis unfolding normalizeDate_eq by simp
qed

lemma isoDate_year:
  assumes "DayFromYear y \<le> d" "d < DayFromYear (y + 1)"
  shows "isoDate d = isoYear y @ js ''-'' @ padNum 2 (MonthFromDay (InLeapYear y) (d - DayFromYear y) + 1) @
           js ''-'' @ padNum 2 (DateFromDay (InLeapYear y) (d - DayFromYear y))"
  using YearFromDay_unique[OF assms] by (simp add: isoDate_def Let_def)

lemmas date_eval = DayFromYear_def InLeapYear_def DaysInYear_def MonthFromDay_def DateFromDay_def
  monthStart_def isoYear_def padNum_def padStart_def toString.simps digitChar_def js_def

lemma isoDate_samples:
  "isoDate 19797 = js ''2024-03-15''"
  "isoDate 19798 = js ''2024-03-16''"
  "isoDate 2932897 = js ''+010000-01-01''"
proof -
  show "isoDate 19797 = js ''2024-03-15''"
    by (subst isoDate_year[of 2024]) (simp_all add: date_eval)
  show "isoDate 19798 = js ''2024-03-16''"
    by (subst isoDate_year[of 2024]) (simp_all add: date_eval)
  show "isoDate 2932897 = js ''+010000-01-01''"
    by (subst isoDate_year[of 10000]) (simp_all add: date_eval)
qed

lemma date_examples:
  "normalizeDate P (js ''2024-03-15'') = Some (js ''2024-03-15'')"
  "normalizeDate P (js ''2024-03-15T23:30:00-05:00'') = Some (js ''2024-03-16'')"
  "normalizeDate P (js ''not-a-date'') = None"
proof -
  show "normalizeDate P (js ''2024-03-15'') = Some (js ''2024-03-15'')"
    using normalizeDate_isoDate[of 19797 P] unfolding isoDate_samples by simp
  have p2: "parseISO (js ''2024-03-15T23:30:00-05:00'') = Some 1710563400000" by code_simp
  have c2: "TimeClip 1710563400000 = Some 1710563400000" by (simp add: TimeClip_def)
  have d2: "1710563400000 div msPerDay = 19798" by (simp add: msPerDay_def)
  show "normalizeDate P (js ''2024-03-15T23:30:00-05:00'') = Some (js ''2024-03-16'')"
    unfolding normalizeDate_parsed[OF p2] c2 by (simp add: d2 isoDate_samples)
  have p3: "parseISO (js ''not-a-date'') = None" by code_simp
  have d3: "\<not> list_ex isDigit (js ''not-a-date'')" by (simp add: js_def isDigit_def)
  show "normalizeDate P (js ''not-a-date'') = None"
    using normalizeDate_unparsed[OF p3] d3 by simp
qed

text \<open>
  Claim C9, as amended. \<open>normalizeDate\<close> parses the string with \<open>new Date\<close>; when that
  gives no time value the error \<open>date must be a valid date\<close> is recorded and the field
  is not set; otherwise the field is the calendar-date part of the instant's ISO
  string, that is the date of the instant in UTC whatever the time of day and the
  offset of the input. That part has the shape \<open>YYYY-MM-DD\<close> exactly for the years 0 to
  9999; outside them it carries a sign and a six-digit year. So \<open>2024-03-15\<close> gives
  \<open>2024-03-15\<close>, and \<open>not-a-date\<close> is rejected with that error, on every host.
\<close>

theorem normalizeDate_calendar:
  "(\<forall>v. raw (js ''date'') = Some (Str v) \<longrightarrow>
      (newDate P v = None \<longrightarrow>
         js ''date must be a valid date'' \<in> set (fst (validateFields P raw)) \<and>
         snd (validateFields P raw) (js ''date'') = None) \<and>
      (\<forall>t. newDate P v = Some t \<longrightarrow>
         snd (validateFields P raw) (js ''date'') = Some (JStr (isoDate (t div msPerDay))) \<and>
         js ''date must be a valid date'' \<notin> set (fst (validateFields P raw)))) \<and>
   (\<forall>v. normalizeDate P v = map_option (\<lambda>t. isoDate (t div msPerDay)) (newDate P v)) \<and>
   (\<forall>d. 0 \<le> YearFromDay d \<and> YearFromDay d \<le> 9999 \<longrightarrow> isoCalendarDate (isoDate d)) \<and>
   (\<forall>d. YearFromDay d < 0 \<or> 9999 < YearFromDay d \<longrightarrow> \<not> isoCalendarDate (isoDate d)) \<and>
   normalizeDate P (js ''2024-03-15'') = Some (js ''2024-03-15'') \<and>
   normalizeDate P (js ''2024-03-15T23:30:00-05:00'') = Some (js ''2024-03-16'') \<and>
   normalizeDate P (js ''not-a-date'') = None \<and>
   (raw (js ''date'') = Some (Str (js ''not-a-date'')) \<longrightarrow>
      js ''date must be a valid date'' \<in> set (fst (validateFields P raw)) \<and>
      snd (validateFields P raw) (js ''date'') = None)"
proof (intro conjI allI impI)
  fix v assume "raw (js ''date'') = Some (Str v)" "newDate P v = None"
  then show "js ''date must be a valid date'' \<in> set (fst (validateFields P raw))"
    and "snd (validateFields P raw) (js ''date'') = None"
    using date_rejected[of raw v P] by simp_all
next
  fix v t assume "raw (js ''date'') = Some (Str v)" "newDate P v = Some t"
  then show "snd (validateFields P raw) (js ''date'') = Some (JStr (isoDate (t div msPerDay)))"
    and "js ''date must be a valid date'' \<notin> set (fst (validateFields P raw))"
    using date_accepted[of raw v P t] by simp_all
next
  fix v show "normalizeDate P v = map_option (\<lambda>t. isoDate (t div msPerDay)) (newDate P v)"
    by (rule normalizeDate_eq)
next
  fix d assume "0 \<le> YearFromDay d \<and> YearFromDay d \<le> 9999"
  then show "isoCalendarDate (isoDate d)" by (simp add: isoDate_shape)
next
  fix d assume "YearFromDay d < 0 \<or> 9999 < YearFromDay d"
  then show "\<not> isoCalendarDate (isoDate d)" by (rule isoDate_expanded)
next
  show "normalizeDate P (js ''2024-03-15'') = Some (js ''2024-03-15'')"
    by (rule date_examples(1))
  show "normalizeDate P (js ''2024-03-15T23:30:00-05:00'') = Some (js ''2024-03-16'')"
    by (rule date_examples(2))
  show "normalizeDate P (js ''not-a-date'') = None"
    by (rule date_examples(3))
next
  have n: "newDate P (js ''not-a-date'') = None"
    using date_examples(3)[of P] normalizeDate_nonempty[of P "js ''not-a-date''"]
    by (cases "newDate P (js ''not-a-date'')") (simp_all add: normalizeDate_eq)
  assume "raw (js ''date'') = Some (Str (js ''not-a-date''))"
  then show "js ''date must be a valid date'' \<in> set (fst (validateFields P raw))"
    and "snd (validateFields P raw) (js ''date'') = None"
    using date_rejected[of raw "js ''not-a-date''" P] n by simp_all
qed

theorem normalizeDate_calendar_witness:
  "sampleRaw (js ''date'') = Some (Str (js ''2024-03-15'')) \<and>
   newDate sampleHost (js ''2024-03-15'') = Some 1710460800000 \<and>
   snd (validateFields sampleHost sampleRaw) (js ''date'') = Some (JStr (js ''2024-03-15'')) \<and>
   YearFromDay 19797 = 2024 \<and> isoCalendarDate (isoDate 19797) \<and>
   normalizeDate sampleHost (js ''not-a-date'') = None"
proof -
  have r: "sampleRaw (js ''date'') = Some (Str (js ''2024-03-15''))"
    by (rule sample_lookups)
  have p: "parseISO (js ''2024-03-15'') = Some 1710460800000" by code_simp
  have n: "newDate sampleHost (js ''2024-03-15'') = Some 1710460800000"
    by (simp add: newDate_def Date_parse_def p TimeClip_def)
  have d: "1710460800000 div msPerDay = 19797" by (simp add: msPerDay_def)
  have i: "isoDate 19797 = js ''2024-03-15''" by (rule isoDate_samples)
  have y: "YearFromDay 19797 = 2024"
    by (rule YearFromDay_unique) (simp_all add: DayFromYear_def)
  note t = normalizeDate_calendar[of sampleRaw sampleHost]
  have "snd (validateFields sampleHost sampleRaw) (js ''date'') = Some (JStr (isoDate (1710460800000 div msPerDay)))"
    using t r n by blast
  moreover have "isoCalendarDate (isoDate 19797)" using t y by simp
  moreover have "normalizeDate sampleHost (js ''not-a-date'') = None" using t by blast
  ultimately show ?thesis using r n y unfolding d i by simp
qed

text \<open>
  The claim as first stated promises the shape \<open>YYYY-MM-DD\<close> for every parseable date.
  A date with an expanded year is in the standard format and keeps its sign and six
  digits.
\<close>

theorem expanded_year_counterexample:
  "normalizeDate sampleHost (js ''+010000-01-01'') = Some (js ''+010000-01-01'') \<and>
   \<not> isoCalendarDate (js ''+010000-01-01'')"
proof -
  have "normalizeDate sampleHost (js ''+010000-01-01'') = Some (js ''+010000-01-01'')"
    using normalizeDate_isoDate[of 2932897 sampleHost] unfolding isoDate_samples by simp
  moreover have "\<not> isoCalendarDate (js ''+010000-01-01'')"
    by (simp add: isoCalendarDate_def js_def)
  ultimately show ?thesis by simp
qed

section \<open>Validating a returned record again\<close>

text \<open>
  Where a second pass changes nothing: a time and a mode that the validator returns are
  fixed points of their normalizers (for the date this is lemma \<open>normalizeDate_fixed\<close>),
  and a sanitized text is one exactly when it has no white space at either end.
\<close>

lemma trim_id:
  assumes "s \<noteq> []" "\<not> isWhiteSpace (hd s)" "\<not> isWhiteSpace (last s)"
  shows "trim s = s"
proof -
  from assms(1,2) have 1: "dropWhile isWhiteSpace s = s" by (cases s) auto
  from assms(1,3) have 2: "dropWhile isWhiteSpace (rev s) = rev s"
    by (cases "rev s") (auto simp: hd_rev[symmetric])
  show ?thesis by (simp add: trim_def 1 2)
qed

lemma trim_subset: "set (trim s) \<subseteq> set s"
proof -
  have a: "set (dropWhile isWhiteSpace xs) \<subseteq> set xs" for xs
    by (auto dest: set_dropWhileD)
  have "set (trim s) = set (dropWhile isWhiteSpace (rev (dropWhile isWhiteSpace s)))"
    by (simp add: trim_def)
  also have "\<dots> \<subseteq> set (rev (dropWhile isWhiteSpace s))" by (rule a)
  also have "\<dots> \<subseteq> set s" using a[of s] by simp
  finally show ?thesis .
qed

lemma trim_length: "length (trim s) \<le> length s"
proof -
  have "length (trim s) \<le> length (dropWhile isWhiteSpace s)"
    unfolding trim_def using length_dropWhile_le[of isWhiteSpace "rev (dropWhile isWhiteSpace s)"] by simp
  also have "\<dots> \<le> length s" by (rule length_dropWhile_le)
  finally show ?thesis .
qed

lemma stripAngles_id: "(\<forall>c\<in>set s. \<not> isAngle c) \<Longrightarrow> stripAngles s = s"
  by (simp add: stripAngles_def)

lemma stripAngles_clean: "\<forall>c\<in>set (stripAngles s). \<not> isAngle c"
  by (simp add: stripAngles_def)

lemma sanitized_text_fixed:
  assumes "s = sanitizePlainText v n"
  shows "sanitizePlainText s n = s \<longleftrightarrow> trim s = s"
proof -
  have clean: "\<forall>c\<in>set s. \<not> isAngle c"
    unfolding assms sanitizePlainText_eq using stripAngles_clean[of "trim v"] by (auto dest: in_set_takeD)
  have len: "length s \<le> n" unfolding assms sanitizePlainText_eq by simp
  have "\<forall>c\<in>set (trim s). \<not> isAngle c" using clean trim_subset[of s] by auto
  then have "stripAngles (trim s) = trim s" by (rule stripAngles_id)
  moreover have "take n (trim s) = trim s" using len trim_length[of s] by simp
  ultimately show ?thesis by (simp add: sanitizePlainText_eq)
qed

lemma twoDigits_props:
  assumes "n < 100"
  shows "list_all isDigit (twoDigits n) \<and> decimalValue (twoDigits n) = n \<and> length (twoDigits n) = 2"
proof -
  have "n div 10 < 10" "n mod 10 < 10" using assms by simp_all
  from digitChar_props[OF this(1)] digitChar_props[OF this(2)] show ?thesis
    by (simp add: twoDigits_def decimalValue_def)
qed

lemma normalizeTime_fixed:
  assumes "normalizeTime v = Some s"
  shows "normalizeTime s = Some s"
proof -
  from assms obtain hs ms p where
    h: "to24h p (decimalValue hs) \<le> 23" "decimalValue ms \<le> 59"
       "s = twoDigits (to24h p (decimalValue hs)) @ js '':'' @ twoDigits (decimalValue ms)"
    unfolding normalizeTime_iff by blast
  define H where "H = to24h p (decimalValue hs)"
  define M where "M = decimalValue ms"
  have s: "s = twoDigits H @ js '':'' @ twoDigits M" using h(3) by (simp add: H_def M_def)
  have H: "H < 100" "H \<le> 23" using h(1) by (simp_all add: H_def)
  have M: "M < 100" "M \<le> 59" using h(2) by (simp_all add: M_def)
  note ph = twoDigits_props[OF H(1)]
  note pm = twoDigits_props[OF M(1)]
  obtain a b where ab: "twoDigits H = [a, b]" by (simp add: twoDigits_def)
  obtain c d where cd: "twoDigits M = [c, d]" by (simp add: twoDigits_def)
  have da: "isDigit a" using ph by (simp add: ab)
  have dd: "isDigit d" using pm by (simp add: cd)
  have "trim s = s"
    by (rule trim_id) (simp_all add: s ab cd js_def digit_props[OF da] digit_props[OF dd])
  then have "trim s = twoDigits H @ js '':'' @ twoDigits M @ []" using s by simp
  moreover have "periodSuffix [] None" by (simp add: periodSuffix_def)
  moreover have "to24h None (decimalValue (twoDigits H)) = H" using ph by (simp add: to24h_def)
  ultimately show ?thesis
    unfolding normalizeTime_iff[of s s]
    using ph pm H(2) M(2) s
    by (rule_tac x = "twoDigits H" in exI, rule_tac x = "twoDigits M" in exI,
        rule_tac x = "[]" in exI, rule_tac x = None in exI)
       (auto simp add: list_all_iff)
qed

lemma mode_fixed: "m \<in> set ALLOWED_MODES \<Longrightarrow> toLowerCase (trim m) = m"
  by (auto simp: ALLOWED_MODES_def js_def trim_def isWhiteSpace_def toLowerCase_def)

lemma lookup_frame:
  assumes "g \<noteq> k"
  shows "snd (validateFields P (raw(k := x))) g = snd (validateFields P raw) g"
proof -
  have h: "snd (validateFields P (raw(k := x))) g = Some v \<longleftrightarrow> snd (validateFields P raw) g = Some v" for v
    unfolding sanitized_lookup by (rule outcomes_frame[OF assms])
  show ?thesis
  proof (cases "snd (validateFields P raw) g")
    case None
    have "snd (validateFields P (raw(k := x))) g \<noteq> Some v" for v
      using h[of v] None by simp
    then have "snd (validateFields P (raw(k := x))) g = None"
      by (cases "snd (validateFields P (raw(k := x))) g") blast+
    with None show ?thesis by simp
  next
    case (Some b)
    with h[of b] show ?thesis by simp
  qed
qed

lemma text_accepted:
  assumes "(f, n) \<in> set TEXT_FIELD_LIMITS" "raw f = Some (Str v)" "sanitizePlainText v n = c" "c \<noteq> []"
  shows "(f, Inr (JStr c)) \<in> set (fieldOutcomes P raw)"
proof -
  have "textOutcome raw (f, n) = (f, Inr (JStr c))"
    using assms(2,3,4) by (simp add: textOutcome_def)
  with text_in_outcomes[OF assms(1), of raw P] show ?thesis by simp
qed

lemma text_rejected:
  assumes "(f, n) \<in> set TEXT_FIELD_LIMITS" "raw f = Some (Str v)" "sanitizePlainText v n = []"
  shows "(f, Inl (f @ js '' cannot be empty'')) \<in> set (fieldOutcomes P raw)"
proof -
  have "textOutcome raw (f, n) = (f, Inl (f @ js '' cannot be empty''))"
    using assms(2,3) by (simp add: textOutcome_def)
  with text_in_outcomes[OF assms(1), of raw P] show ?thesis by simp
qed

lemma sample_fields:
  "sampleRaw (js ''title'') = Some (Str (js ''  <b>Hi</b>  ''))"
  "sampleRaw (js ''description'') = Some (Str (js ''Talks''))"
  "sampleRaw (js ''overview'') = Some (Str (js ''A day of talks''))"
  "sampleRaw (js ''venue'') = Some (Str (js ''Hall 1''))"
  "sampleRaw (js ''location'') = Some (Str (js ''Lima''))"
  "sampleRaw (js ''audience'') = Some (Str (js ''Developers''))"
  "sampleRaw (js ''organizer'') = Some (Str (js ''DevEvent''))"
  "sampleRaw (js ''date'') = Some (Str (js ''2024-03-15''))"
  "sampleRaw (js ''time'') = Some (Str (js ''2:30 PM''))"
  "sampleRaw (js ''mode'') = Some (Str (js '' Online ''))"
  "sampleRaw (js ''agenda'') = Some (Str (js ''[\"Intro\"]''))"
  "sampleRaw (js ''tags'') = Some (Str (js ''[\"<b>AI</b>\",\"Cloud\"]''))"
  "sampleRaw (js ''image'') = Some (Str sampleUrl)"
  by (simp_all add: sampleRaw_def fromEntries_def sampleEntries_def js_def)

lemma text_limits:
  "(js ''title'', 100) \<in> set TEXT_FIELD_LIMITS"
  "(js ''description'', 1000) \<in> set TEXT_FIELD_LIMITS"
  "(js ''overview'', 500) \<in> set TEXT_FIELD_LIMITS"
  "(js ''venue'', 100) \<in> set TEXT_FIELD_LIMITS"
  "(js ''location'', 150) \<in> set TEXT_FIELD_LIMITS"
  "(js ''audience'', 150) \<in> set TEXT_FIELD_LIMITS"
  "(js ''organizer'', 150) \<in> set TEXT_FIELD_LIMITS"
  by (simp_all add: TEXT_FIELD_LIMITS_def)

lemma clean_text:
  "sanitizePlainText (js ''Talks'') 1000 = js ''Talks''"
  "sanitizePlainText (js ''A day of talks'') 500 = js ''A day of talks''"
  "sanitizePlainText (js ''Hall 1'') 100 = js ''Hall 1''"
  "sanitizePlainText (js ''Lima'') 150 = js ''Lima''"
  "sanitizePlainText (js ''Developers'') 150 = js ''Developers''"
  "sanitizePlainText (js ''DevEvent'') 150 = js ''DevEvent''"
  "sanitizePlainText (js ''< >'') 100 = js '' ''"
  "sanitizePlainText (js '' '') 100 = []"
  by (simp_all add: sanitizePlainText_eq trim_def stripAngles_def isAngle_def isWhiteSpace_def js_def)

lemma nonempty_literals:
  "js ''Talks'' \<noteq> []" "js ''A day of talks'' \<noteq> []" "js ''Hall 1'' \<noteq> []" "js ''Lima'' \<noteq> []"
  "js ''Developers'' \<noteq> []" "js ''DevEvent'' \<noteq> []" "js '' '' \<noteq> []" "js ''2024-03-15'' \<noteq> []"
  "js ''14:30'' \<noteq> []" "js ''[\"Intro\"]'' \<noteq> []" "js ''[\"<b>AI</b>\",\"Cloud\"]'' \<noteq> []"
  "js ''[\"bAI/b\",\"Cloud\"]'' \<noteq> []" "sampleUrl \<noteq> []"
  by (simp_all add: js_def sampleUrl_def)

lemma sample_record:
  "snd (validateFields sampleHost sampleRaw) (js ''description'') = Some (JStr (js ''Talks''))"
  "snd (validateFields sampleHost sampleRaw) (js ''overview'') = Some (JStr (js ''A day of talks''))"
  "snd (validateFields sampleHost sampleRaw) (js ''venue'') = Some (JStr (js ''Hall 1''))"
  "snd (validateFields sampleHost sampleRaw) (js ''location'') = Some (JStr (js ''Lima''))"
  "snd (validateFields sampleHost sampleRaw) (js ''audience'') = Some (JStr (js ''Developers''))"
  "snd (validateFields sampleHost sampleRaw) (js ''organizer'') = Some (JStr (js ''DevEvent''))"
  "snd (validateFields sampleHost sampleRaw) (js ''date'') = Some (JStr (js ''2024-03-15''))"
  "snd (validateFields sampleHost sampleRaw) (js ''time'') = Some (JStr (js ''14:30''))"
  "snd (validateFields sampleHost sampleRaw) (js ''mode'') = Some (JStr (js ''online''))"
  "snd (validateFields sampleHost sampleRaw) (js ''agenda'') = Some (JArr [JStr (js ''Intro'')])"
  "snd (validateFields sampleHost sampleRaw) (js ''tags'') = Some (JArr [JStr (js ''bAI/b''), JStr (js ''Cloud'')])"
  "snd (validateFields sampleHost sampleRaw) (js ''image'') = Some (JStr sampleUrl)"
proof -
  note r = sample_fields
  note ne = nonempty_literals
  show "snd (validateFields sampleHost sampleRaw) (js ''description'') = Some (JStr (js ''Talks''))"
    unfolding sanitized_lookup by (rule text_accepted[where raw = sampleRaw, OF text_limits(2) r(2) clean_text(1) ne(1)])
  show "snd (validateFields sampleHost sampleRaw) (js ''overview'') = Some (JStr (js ''A day of talks''))"
    unfolding sanitized_lookup by (rule text_accepted[where raw = sampleRaw, OF text_limits(3) r(3) clean_text(2) ne(2)])
  show "snd (validateFields sampleHost sampleRaw) (js ''venue'') = Some (JStr (js ''Hall 1''))"
    unfolding sanitized_lookup by (rule text_accepted[where raw = sampleRaw, OF text_limits(4) r(4) clean_text(3) ne(3)])
  show "snd (validateFields sampleHost sampleRaw) (js ''location'') = Some (JStr (js ''Lima''))"
    unfolding sanitized_lookup by (rule text_accepted[where raw = sampleRaw, OF text_limits(5) r(5) clean_text(4) ne(4)])
  show "snd (validateFields sampleHost sampleRaw) (js ''audience'') = Some (JStr (js ''Developers''))"
    unfolding sanitized_lookup by (rule text_accepted[where raw = sampleRaw, OF text_limits(6) r(6) clean_text(5) ne(5)])
  show "snd (validateFields sampleHost sampleRaw) (js ''organizer'') = Some (JStr (js ''DevEvent''))"
    unfolding sanitized_lookup by (rule text_accepted[where raw = sampleRaw, OF text_limits(7) r(7) clean_text(6) ne(6)])
  have "dateOutcome sampleHost sampleRaw = Inr (JStr (js ''2024-03-15''))"
    by (simp add: dateOutcome_def r date_examples ne)
  then show "snd (validateFields sampleHost sampleRaw) (js ''date'') = Some (JStr (js ''2024-03-15''))"
    unfolding sanitized_lookup using other_in_outcomes(1)[of sampleHost sampleRaw] by simp
  have nt: "normalizeTime (js ''2:30 PM'') = Some (js ''14:30'')" by code_simp
  have "timeOutcome sampleRaw = Inr (JStr (js ''14:30''))"
    by (simp add: timeOutcome_def r nt ne)
  then show "snd (validateFields sampleHost sampleRaw) (js ''time'') = Some (JStr (js ''14:30''))"
    unfolding sanitized_lookup using other_in_outcomes(2)[of sampleRaw sampleHost] by simp
  have lm: "toLowerCase (trim (js '' Online '')) = js ''online''" by code_simp
  have rm: "rawModeOf sampleRaw = js ''online''"
    by (simp add: rawModeOf_def r lm)
  have "modeOutcome sampleRaw = Inr (JStr (js ''online''))"
    by (simp add: modeOutcome_def rm ALLOWED_MODES_def js_def)
  then show "snd (validateFields sampleHost sampleRaw) (js ''mode'') = Some (JStr (js ''online''))"
    unfolding sanitized_lookup using other_in_outcomes(3)[of sampleRaw sampleHost] by simp
  have pa: "parseStringArray (js ''[\"Intro\"]'') = Some [js ''Intro'']" by code_simp
  have "arrayOutcome (js ''agenda'') sampleRaw = Inr (JArr [JStr (js ''Intro'')])"
    by (simp add: arrayOutcome_def arrayOf_def stringOrEmpty_def r pa ne)
  then show "snd (validateFields sampleHost sampleRaw) (js ''agenda'') = Some (JArr [JStr (js ''Intro'')])"
    unfolding sanitized_lookup using other_in_outcomes(4)[of sampleRaw sampleHost] by simp
  have pt: "parseStringArray (js ''[\"<b>AI</b>\",\"Cloud\"]'') = Some [js ''bAI/b'', js ''Cloud'']"
    by code_simp
  have "arrayOutcome (js ''tags'') sampleRaw = Inr (JArr [JStr (js ''bAI/b''), JStr (js ''Cloud'')])"
    by (simp add: arrayOutcome_def arrayOf_def stringOrEmpty_def r pt ne)
  then show "snd (validateFields sampleHost sampleRaw) (js ''tags'') =
      Some (JArr [JStr (js ''bAI/b''), JStr (js ''Cloud'')])"
    unfolding sanitized_lookup using other_in_outcomes(5)[of sampleRaw sampleHost] by simp
  have "imageOutcome sampleHost sampleRaw = Inr (JStr sampleUrl)"
    by (simp add: imageOutcome_def stringOrEmpty_def r ensureSecureImageUrl_def sampleHost_def ne)
  then show "snd (validateFields sampleHost sampleRaw) (js ''image'') = Some (JStr sampleUrl)"
    unfolding sanitized_lookup using other_in_outcomes(6)[of sampleHost sampleRaw] by simp
qed

lemma field_names_differ:
  "js ''description'' \<noteq> js ''title''" "js ''overview'' \<noteq> js ''title''" "js ''venue'' \<noteq> js ''title''"
  "js ''location'' \<noteq> js ''title''" "js ''audience'' \<noteq> js ''title''" "js ''organizer'' \<noteq> js ''title''"
  "js ''date'' \<noteq> js ''title''" "js ''time'' \<noteq> js ''title''" "js ''mode'' \<noteq> js ''title''"
  "js ''agenda'' \<noteq> js ''title''" "js ''tags'' \<noteq> js ''title''" "js ''image'' \<noteq> js ''title''"
  by (simp_all add: js_def)

lemma stringify_samples:
  "JSON_stringify [js ''Intro''] = js ''[\"Intro\"]''"
  "JSON_stringify [js ''bAI/b'', js ''Cloud''] = js ''[\"bAI/b\",\"Cloud\"]''"
  by (simp_all add: JSON_stringify_def QuoteJSONString_def quoteUnit_def isLeadingSurrogate_def
      isTrailingSurrogate_def js_def)

text \<open>
  Claim C8 asks that validating the values of a returned record again gives the same
  values. \<open>sanitizePlainText\<close> trims before it strips the angle brackets, so what it
  returns can begin or end with white space, or be white space only, which the test for
  an empty value lets through. The sample submission with the title \<open>< >\<close> is
  accepted with a title of one space; that record, submitted again, is refused with
  \<open>title cannot be empty\<close>.
\<close>

theorem sanitized_title_not_fixed:
  "(case validateAndSanitizeEvent sampleHost (sampleRaw(js ''title'' \<mapsto> Str (js ''< >''))) of
      (errors, None) \<Rightarrow> False
    | (errors, Some ev) \<Rightarrow>
        errors = [] \<and> ev (js ''title'') = Some (JStr (js '' '')) \<and>
        asStrings_spec ev (js ''title'') = Some (Str (js '' '')) \<and>
        validateAndSanitizeEvent sampleHost (asStrings_spec ev) = ([js ''title cannot be empty''], None))"
proof -
  let ?raw = "sampleRaw(js ''title'' \<mapsto> Str (js ''< >''))"
  define ev where "ev = snd (validateFields sampleHost ?raw)"
  define R where "R = asStrings_spec ev"
  note ne = nonempty_literals
  have m: "(js ''title'', Inr (JStr (js '' ''))) \<in> set (fieldOutcomes sampleHost ?raw)"
    by (rule text_accepted[where v = "js ''< >''", OF text_limits(1) _ clean_text(7) ne(7)]) simp
  note u = update_valid[OF sample_valid m]
  have v: "validateAndSanitizeEvent sampleHost ?raw = ([], Some ev)"
    unfolding ev_def by (rule validate_result[OF u(1)])
  have t: "ev (js ''title'') = Some (JStr (js '' ''))"
    unfolding ev_def by (rule u(2))
  have o: "ev (js ''description'') = Some (JStr (js ''Talks''))"
    "ev (js ''overview'') = Some (JStr (js ''A day of talks''))"
    "ev (js ''venue'') = Some (JStr (js ''Hall 1''))"
    "ev (js ''location'') = Some (JStr (js ''Lima''))"
    "ev (js ''audience'') = Some (JStr (js ''Developers''))"
    "ev (js ''organizer'') = Some (JStr (js ''DevEvent''))"
    "ev (js ''date'') = Some (JStr (js ''2024-03-15''))"
    "ev (js ''time'') = Some (JStr (js ''14:30''))"
    "ev (js ''mode'') = Some (JStr (js ''online''))"
    "ev (js ''agenda'') = Some (JArr [JStr (js ''Intro'')])"
    "ev (js ''tags'') = Some (JArr [JStr (js ''bAI/b''), JStr (js ''Cloud'')])"
    "ev (js ''image'') = Some (JStr sampleUrl)"
    unfolding ev_def by (simp_all only: lookup_frame[OF field_names_differ(1)] lookup_frame[OF field_names_differ(2)]
        lookup_frame[OF field_names_differ(3)] lookup_frame[OF field_names_differ(4)]
        lookup_frame[OF field_names_differ(5)] lookup_frame[OF field_names_differ(6)]
        lookup_frame[OF field_names_differ(7)] lookup_frame[OF field_names_differ(8)]
        lookup_frame[OF field_names_differ(9)] lookup_frame[OF field_names_differ(10)]
        lookup_frame[OF field_names_differ(11)] lookup_frame[OF field_names_differ(12)] sample_record)
  have r: "R (js ''title'') = Some (Str (js '' ''))"
    "R (js ''description'') = Some (Str (js ''Talks''))"
    "R (js ''overview'') = Some (Str (js ''A day of talks''))"
    "R (js ''venue'') = Some (Str (js ''Hall 1''))"
    "R (js ''location'') = Some (Str (js ''Lima''))"
    "R (js ''audience'') = Some (Str (js ''Developers''))"
    "R (js ''organizer'') = Some (Str (js ''DevEvent''))"
    "R (js ''date'') = Some (Str (js ''2024-03-15''))"
    "R (js ''time'') = Some (Str (js ''14:30''))"
    "R (js ''mode'') = Some (Str (js ''online''))"
    "R (js ''agenda'') = Some (Str (js ''[\"Intro\"]''))"
    "R (js ''tags'') = Some (Str (js ''[\"bAI/b\",\"Cloud\"]''))"
    "R (js ''image'') = Some (Str sampleUrl)"
    unfolding R_def asStrings_spec_def by (simp_all add: t o stringify_samples)
  have x: "textOutcome R (js ''title'', 100) = (js ''title'', Inl (js ''title cannot be empty''))"
    "textOutcome R (js ''description'', 1000) = (js ''description'', Inr (JStr (js ''Talks'')))"
    "textOutcome R (js ''overview'', 500) = (js ''overview'', Inr (JStr (js ''A day of talks'')))"
    "textOutcome R (js ''venue'', 100) = (js ''venue'', Inr (JStr (js ''Hall 1'')))"
    "textOutcome R (js ''location'', 150) = (js ''location'', Inr (JStr (js ''Lima'')))"
    "textOutcome R (js ''audience'', 150) = (js ''audience'', Inr (JStr (js ''Developers'')))"
    "textOutcome R (js ''organizer'', 150) = (js ''organizer'', Inr (JStr (js ''DevEvent'')))"
    by (simp_all add: textOutcome_def r clean_text ne) (simp add: js_def)
  have d: "dateOutcome sampleHost R = Inr (JStr (js ''2024-03-15''))"
    by (simp add: dateOutcome_def r date_examples ne)
  have nt: "normalizeTime (js ''14:30'') = Some (js ''14:30'')" by code_simp
  have ti: "timeOutcome R = Inr (JStr (js ''14:30''))"
    by (simp add: timeOutcome_def r nt ne)
  have lm: "toLowerCase (trim (js ''online'')) = js ''online''" by code_simp
  have rm: "rawModeOf R = js ''online''"
    by (simp add: rawModeOf_def r lm)
  have mo: "modeOutcome R = Inr (JStr (js ''online''))"
    by (simp add: modeOutcome_def rm ALLOWED_MODES_def js_def)
  have pa: "parseStringArray (js ''[\"Intro\"]'') = Some [js ''Intro'']" by code_simp
  have ag: "arrayOutcome (js ''agenda'') R = Inr (JArr [JStr (js ''Intro'')])"
    by (simp add: arrayOutcome_def arrayOf_def stringOrEmpty_def r pa ne)
  have pt: "parseStringArray (js ''[\"bAI/b\",\"Cloud\"]'') = Some [js ''bAI/b'', js ''Cloud'']"
    by code_simp
  have tg: "arrayOutcome (js ''tags'') R = Inr (JArr [JStr (js ''bAI/b''), JStr (js ''Cloud'')])"
    by (simp add: arrayOutcome_def arrayOf_def stringOrEmpty_def r pt ne)
  have im: "imageOutcome sampleHost R = Inr (JStr sampleUrl)"
    by (simp add: imageOutcome_def stringOrEmpty_def r ensureSecureImageUrl_def sampleHost_def ne)
  have e: "fst (validateFields sampleHost R) = [js ''title cannot be empty'']"
    unfolding validateFields_eq fst_conv fieldOutcomes_def TEXT_FIELD_LIMITS_def list.map x d ti mo ag tg im
    by (simp add: errorsOf_simps)
  then have "fst (validateFields sampleHost R) \<noteq> []" by simp
  from validate_snd_None[OF this] e have w: "validateAndSanitizeEvent sampleHost R = ([js ''title cannot be empty''], None)"
    by (simp add: prod_eq_iff validate_fst)
  show ?thesis unfolding v using t r(1) w by (simp add: R_def)
qed

section \<open>The record handed to the store\<close>

lemma sample_form_lookups:
  "formData_get sampleEntries (js ''image'') = Some (FileValue sampleFile)"
  "formData_get sampleEntries (js ''tags'') = Some (Str (js ''[\"<b>AI</b>\",\"Cloud\"]''))"
  "formData_get sampleEntries (js ''agenda'') = Some (Str (js ''[\"Intro\"]''))"
  by (simp_all add: formData_get_def sampleEntries_def js_def)

lemma sample_json:
  "JSON_parse (js ''[\"<b>AI</b>\",\"Cloud\"]'') = Some (JArr [JStr (js ''<b>AI</b>''), JStr (js ''Cloud'')])"
  "JSON_parse (js ''[\"Intro\"]'') = Some (JArr [JStr (js ''Intro'')])"
  by code_simp+

lemma sample_tags:
  "snd (validateFields sampleHost sampleRaw) (js ''tags'') =
     Some (JArr [JStr (js ''bAI/b''), JStr (js ''Cloud'')])"
proof -
  have p: "parseStringArray (js ''[\"<b>AI</b>\",\"Cloud\"]'') = Some [js ''bAI/b'', js ''Cloud'']"
    by code_simp
  have ne: "js ''[\"<b>AI</b>\",\"Cloud\"]'' \<noteq> []" by (simp add: js_def)
  have "arrayOutcome (js ''tags'') sampleRaw = Inr (JArr [JStr (js ''bAI/b''), JStr (js ''Cloud'')])"
    by (simp add: arrayOutcome_def arrayOf_def stringOrEmpty_def sample_lookups p ne)
  then show ?thesis
    unfolding sanitized_lookup using other_in_outcomes(5)[of sampleRaw sampleHost] by simp
qed

text \<open>
  Claim C2 asks that the record handed to \<open>Event.create\<close> is the validator's record,
  sanitized lists included. The handler overrides \<open>tags\<close> and \<open>agenda\<close> of that
  record with the values it parsed from the form before validation: for the sample
  form the validator's tags are \<open>bAI/b\<close> and \<open>Cloud\<close>, and the tags handed to
  \<open>Event.create\<close> are \<open><b>AI</b>\<close> and \<open>Cloud\<close>.
\<close>

theorem post_persists_unsanitized_tags:
  "upload sampleHost sampleFile = Some sampleUrl \<and>
   (case validateAndSanitizeEvent sampleHost ((fromEntries sampleEntries)(js ''image'' \<mapsto> Str sampleUrl)) of
      (errors, None) \<Rightarrow> False
    | (errors, Some ev) \<Rightarrow>
        errors = [] \<and> ev (js ''tags'') = Some (JArr [JStr (js ''bAI/b''), JStr (js ''Cloud'')])) \<and>
   (case POST sampleHost sampleEntries of
      Response status message errors \<Rightarrow> False
    | Event_create arg \<Rightarrow>
        arg (js ''tags'') = Some (JArr [JStr (js ''<b>AI</b>''), JStr (js ''Cloud'')]))"
proof -
  define ev where "ev = snd (validateFields sampleHost sampleRaw)"
  have v: "validateAndSanitizeEvent sampleHost ((fromEntries sampleEntries)(js ''image'' \<mapsto> Str sampleUrl)) =
             ([], Some ev)"
    unfolding ev_def using validate_result[OF sample_valid] by (simp add: sampleRaw_def)
  have u: "upload sampleHost sampleFile = Some sampleUrl" by (simp add: sampleHost_def)
  have ft: "file_type sampleFile \<in> set allowedTypes"
    by (simp add: sampleFile_def allowedTypes_def js_def)
  have fs: "\<not> file_size sampleFile > maxSize" by (simp add: sampleFile_def maxSize_def)
  have "POST sampleHost sampleEntries =
          Event_create (ev(js ''tags'' \<mapsto> JArr [JStr (js ''<b>AI</b>''), JStr (js ''Cloud'')],
                           js ''agenda'' \<mapsto> JArr [JStr (js ''Intro'')]))"
    unfolding POST_def Let_def sample_form_lookups ToString_def
    by (simp add: sample_json ft fs u v)
  moreover have "js ''tags'' \<noteq> js ''agenda''" by (simp add: js_def)
  ultimately show ?thesis using u v sample_tags by (simp add: ev_def)
qed

end
